theory Spec2Isabelle
  imports Complex_Main "HOL-Library.Monad_Syntax"
begin

section \<open>Progression calculator\<close>

text \<open>
  The level table of \<^verbatim>\<open>App.tsx\<close> (\<^verbatim>\<open>levelTable\<close>): entry \<open>i\<close> is the XP that
  level \<open>i + 1\<close> costs. XP values are JavaScript numbers that the program only ever
  builds by adding integers, so they are modelled as \<open>int\<close>.
\<close>

definition levelTable :: "int list" where
  "levelTable =
    [500, 540, 583, 630, 680, 734, 793, 856, 924, 998,
     1079, 1166, 1259, 1359, 1468, 1585, 1712, 1849, 1997, 2157,
     2330, 2517, 2718, 2936, 3171, 3424, 3698, 3994, 4314, 4659,
     5032, 5434, 5869, 6338, 6845, 7393, 7984, 8623, 9313, 10058,
     10862, 11731, 12670, 13683, 14778, 15960, 17237, 18616, 20105, 21713,
     23450, 25326, 27352, 29540, 31903, 34455, 37211, 40188, 43403, 46875,
     50625, 54675, 59049, 63773, 68875, 74385, 80336, 86763, 93704, 101200,
     109296, 118040, 127483, 137682, 148696, 160592, 173439, 187314, 202299, 218483,
     235962, 254839, 275226, 297244, 321024, 346706, 374442, 404398, 436750, 471690,
     509425, 550180, 594194, 641730, 693068, 748514, 808395, 872667, 942480, 1017878]"

text \<open>
  \<^verbatim>\<open>getLevel\<close>: the \<^verbatim>\<open>for\<close> loop with its running total \<^verbatim>\<open>totalXpNeeded\<close> and
  its index \<^verbatim>\<open>i\<close>; \<open>None\<close> is the loop running off the end of the table, where the
  source returns \<^verbatim>\<open>levelTable.length\<close>.
\<close>

fun getLevel_loop :: "int list \<Rightarrow> int \<Rightarrow> nat \<Rightarrow> int \<Rightarrow> nat option" where
  "getLevel_loop [] totalXpNeeded i xp = None"
| "getLevel_loop (c # cs) totalXpNeeded i xp =
     (if xp < totalXpNeeded + c then Some (i + 1)
      else getLevel_loop cs (totalXpNeeded + c) (i + 1) xp)"

definition getLevel_in :: "int list \<Rightarrow> int \<Rightarrow> nat" where
  "getLevel_in tbl xp =
     (case getLevel_loop tbl 0 0 xp of Some l \<Rightarrow> l | None \<Rightarrow> length tbl)"

definition getLevel :: "int \<Rightarrow> nat" where
  "getLevel xp = getLevel_in levelTable xp"

text \<open>The cumulative cost of the first \<open>n\<close> levels, as the specification words it.\<close>

definition cumulativeCost :: "nat \<Rightarrow> int" where
  "cumulativeCost n = sum_list (take n levelTable)"

text \<open>
  The running total of \<^verbatim>\<open>getLevelProgress\<close> and \<^verbatim>\<open>getXPInCurrentLevel\<close>:
  \<^verbatim>\<open>for (let i = 0; i < currentLevel - 1; i++) total += levelTable[i]\<close>.
\<close>

definition totalXpForLevels :: "nat \<Rightarrow> int" where
  "totalXpForLevels n = fold (\<lambda>i total. total + levelTable ! i) [0..<n] 0"

text \<open>
  \<^verbatim>\<open>getLevelProgress\<close>. The percentage is a JavaScript double; it is modelled as the
  exact real quotient, so rounding of the double is outside the model. The index
  \<open>currentLevel - 1\<close> is within the table, since \<open>1 \<le> currentLevel < 100\<close> there.
\<close>

definition getLevelProgress :: "int \<Rightarrow> real" where
  "getLevelProgress xp =
     (let currentLevel = getLevel xp in
      if currentLevel \<ge> 100 then 100
      else
        let totalXpForCurrentLevel = totalXpForLevels (currentLevel - 1);
            xpInCurrentLevel = xp - totalXpForCurrentLevel;
            xpNeededForCurrentLevel = levelTable ! (currentLevel - 1)
        in min 100 ((real_of_int xpInCurrentLevel / real_of_int xpNeededForCurrentLevel) * 100))"

text \<open>\<^verbatim>\<open>getXPToNextLevel\<close>: the table entry at index \<open>currentLevel\<close>, minus \<open>xp\<close>.\<close>

definition getXPToNextLevel :: "int \<Rightarrow> int" where
  "getXPToNextLevel xp =
     (let currentLevel = getLevel xp in
      if currentLevel \<ge> 100 then 0
      else
        let xpForNextLevel = levelTable ! currentLevel
        in xpForNextLevel - xp)"

section \<open>Quest state\<close>

text \<open>
  The React state of \<^verbatim>\<open>DetailedQuestsAppContent\<close> that the engine reads and writes.
  Field names follow the source, with a prefix where two objects share a name
  (\<^verbatim>\<open>id\<close>, \<^verbatim>\<open>xp\<close>, \<^verbatim>\<open>completed\<close>, ...). Display texts are byte strings.
\<close>

record step =
  step_id :: string
  step_text :: string
  step_completed :: bool

text \<open>
  The stored \<^verbatim>\<open>progress\<close> of a quest is the result of \<^verbatim>\<open>Math.round\<close>, which is
  \<^verbatim>\<open>NaN\<close> for a quest without steps (\<^verbatim>\<open>0 / 0\<close>).
\<close>

datatype jsnum = Num int | NaN

record mainQuest =
  q_id :: string
  q_title :: string
  q_description :: string
  q_icon :: string
  q_xp :: int
  q_category :: string
  q_progress :: jsnum
  q_color :: string
  q_steps :: "step list"

record dailyQuest =
  d_id :: int
  d_title :: string
  d_xp :: int
  d_completed :: bool
  d_emoji :: string
  d_color :: string
  d_category :: string

record userProfile =
  profile_name :: string
  avatar :: string
  totalXP :: int
  profile_level :: int
  streak :: int
  mood :: string
  moodText :: string

datatype themeType = Light | Dark | Accent

text \<open>
  \<^verbatim>\<open>completedQuests\<close> is a JavaScript \<^verbatim>\<open>Set<string>\<close>: a list without repetitions
  in insertion order, which is the order \<^verbatim>\<open>Array.from\<close> serializes.
\<close>

record appState =
  profile :: userProfile
  dailyQuests :: "dailyQuest list"
  mainQuests :: "mainQuest list"
  completedQuests :: "string list"
  lastResetDate :: string
  selectedCharacter :: string
  notifications :: bool
  progressReminders :: bool
  soundEnabled :: bool
  vibrationsEnabled :: bool
  theme :: themeType
  animationsEnabled :: bool

definition set_has :: "string list \<Rightarrow> string \<Rightarrow> bool" where
  "set_has s x = (x \<in> set s)"

definition set_add :: "string list \<Rightarrow> string \<Rightarrow> string list" where
  "set_add s x = (if x \<in> set s then s else s @ [x])"

text \<open>\<^verbatim>\<open>new Set(array)\<close>: the elements are added one by one.\<close>

definition set_from_array :: "string list \<Rightarrow> string list" where
  "set_from_array xs = fold (\<lambda>x s. set_add s x) xs []"

text \<open>
  The arithmetic of \<^verbatim>\<open>Math.round((completedSteps / quest.steps.length) * 100)\<close> is
  that of IEEE doubles: the quotient is rounded to a double, the product with 100 is
  rounded to a double, and \<^verbatim>\<open>Math.round\<close> takes the nearest integer of that double,
  halves upwards. \<open>to_double a b\<close> is the double nearest to \<open>a / b\<close> (ties to the
  even mantissa) for positive \<open>a\<close> and \<open>b\<close>, given as a mantissa \<open>m\<close> of 53 bits and
  a scale \<open>s\<close>: the double is \<open>m / 2 ^ s\<close>. It covers the quotients below \<open>2 ^ 53\<close>
  in the normal range of doubles, where the percentages of a quest lie.
\<close>

function bit_length :: "int \<Rightarrow> nat" where
  "bit_length n = (if n \<le> 0 then 0 else Suc (bit_length (n div 2)))"
  by pat_completeness auto
termination
  by (relation "measure nat") auto

declare bit_length.simps [simp del]

definition to_double :: "int \<Rightarrow> int \<Rightarrow> int \<times> nat" where
  "to_double a b =
     (let s1 = 52 + bit_length b - bit_length a;
          s = (if b * 2 ^ 52 \<le> a * 2 ^ s1 then s1 else s1 + 1);
          f = (a * 2 ^ s) div b;
          r = (a * 2 ^ s) mod b;
          m = (if 2 * r < b then f else if b < 2 * r then f + 1
               else if even f then f else f + 1)
      in (m, s))"

text \<open>
  The rounded percentage: \<^verbatim>\<open>NaN\<close> for a quest without steps (\<^verbatim>\<open>0 / 0\<close>), and 0
  when no step is completed. The number of completed steps never exceeds the number of
  steps.
\<close>

definition round_percent :: "nat \<Rightarrow> nat \<Rightarrow> jsnum" where
  "round_percent completedSteps totalSteps =
     (if totalSteps = 0 then NaN
      else if completedSteps = 0 then Num 0
      else
        let (m1, s1) = to_double (int completedSteps) (int totalSteps);
            (m2, s2) = to_double (m1 * 100) (2 ^ s1)
        in Num ((2 * m2 + 2 ^ s2) div 2 ^ (s2 + 1)))"

text \<open>\<^verbatim>\<open>getQuestProgress\<close>: the percentage the screens show, computed from the steps.\<close>

definition getQuestProgress :: "mainQuest \<Rightarrow> jsnum" where
  "getQuestProgress quest =
     round_percent (length (filter step_completed (q_steps quest))) (length (q_steps quest))"

section \<open>Quest operations\<close>

text \<open>
  The XP updates an operation dispatches with \<^verbatim>\<open>setUserProfile\<close>: the fixed award of
  a step, and the completion bonus of a quest (the update \<^verbatim>\<open>toggleQuestStep\<close> defers
  with \<^verbatim>\<open>setTimeout\<close> so that it is credited on its own).
\<close>

datatype award = StepAward int | QuestBonus string int

fun award_xp :: "award \<Rightarrow> int" where
  "award_xp (StepAward n) = n"
| "award_xp (QuestBonus questId n) = n"

fun is_bonus_for :: "string \<Rightarrow> award \<Rightarrow> bool" where
  "is_bonus_for questId (StepAward n) = False"
| "is_bonus_for questId (QuestBonus questId' n) = (questId' = questId)"

definition bonus_count :: "string \<Rightarrow> award list \<Rightarrow> nat" where
  "bonus_count questId awards = length (filter (is_bonus_for questId) awards)"

text \<open>\<^verbatim>\<open>quest.xp || 1000\<close>: a zero \<^verbatim>\<open>xp\<close> is falsy.\<close>

definition questBonus :: "mainQuest \<Rightarrow> int" where
  "questBonus quest = (if q_xp quest = 0 then 1000 else q_xp quest)"

text \<open>
  The body that \<^verbatim>\<open>toggleQuestStep\<close> maps over \<^verbatim>\<open>prevQuests\<close>, for one quest: the
  updated quest and the XP updates it dispatches. \<open>completed\<close> is the
  \<^verbatim>\<open>completedQuests\<close> set the handler sees, that of the state it is called in;
  \<open>updateSteps\<close> is the map that builds \<^verbatim>\<open>updatedSteps\<close>. The copy of the quest
  kept for the open details window (\<^verbatim>\<open>selectedQuest\<close>) is display state and is left
  out.
\<close>

definition updateSteps :: "string \<Rightarrow> step list \<Rightarrow> step list" where
  "updateSteps stepId steps =
     map (\<lambda>st. if step_id st = stepId \<and> \<not> step_completed st
                then st\<lparr>step_completed := True\<rparr> else st) steps"

definition toggle_in_quest ::
  "string \<Rightarrow> string \<Rightarrow> string list \<Rightarrow> mainQuest \<Rightarrow> mainQuest \<times> award list" where
  "toggle_in_quest questId stepId completed quest =
     (if q_id quest = questId then
        let updatedSteps = updateSteps stepId (q_steps quest);
            completedSteps = length (filter step_completed updatedSteps);
            progress = round_percent completedSteps (length (q_steps quest));
            awards =
              (case find (\<lambda>s. step_id s = stepId) (q_steps quest) of
                 Some st \<Rightarrow>
                   if \<not> step_completed st then
                     StepAward 30 #
                     (if length (filter step_completed updatedSteps) = length (q_steps quest)
                         \<and> \<not> set_has completed questId
                      then [QuestBonus questId (questBonus quest)] else [])
                   else []
               | None \<Rightarrow> [])
        in (quest\<lparr>q_steps := updatedSteps, q_progress := progress\<rparr>, awards)
      else (quest, []))"

text \<open>
  The state updates a bonus brings with it:
  \<^verbatim>\<open>setCompletedQuests(prev => new Set(prev).add(questId))\<close>.
\<close>

fun record_completion :: "award \<Rightarrow> string list \<Rightarrow> string list" where
  "record_completion (StepAward n) completed = completed"
| "record_completion (QuestBonus questId n) completed = set_add completed questId"

definition addXP :: "int \<Rightarrow> appState \<Rightarrow> appState" where
  "addXP n st = st\<lparr>profile := (profile st)\<lparr>totalXP := totalXP (profile st) + n\<rparr>\<rparr>"

text \<open>
  \<^verbatim>\<open>toggleQuestStep\<close>, with every update it dispatches applied: the new state and the
  XP updates in the order they were dispatched. The deferred bonus adds to whatever
  total is current when its timer fires, so applying it here gives the same total.
\<close>

definition toggleQuestStep_run :: "string \<Rightarrow> string \<Rightarrow> appState \<Rightarrow> appState \<times> award list" where
  "toggleQuestStep_run questId stepId st =
     (let results = map (toggle_in_quest questId stepId (completedQuests st)) (mainQuests st);
          awards = concat (map snd results)
      in (addXP (sum_list (map award_xp awards))
            (st\<lparr>mainQuests := map fst results,
                completedQuests := fold record_completion awards (completedQuests st)\<rparr>),
          awards))"

definition toggleQuestStep :: "string \<Rightarrow> string \<Rightarrow> appState \<Rightarrow> appState" where
  "toggleQuestStep questId stepId st = fst (toggleQuestStep_run questId stepId st)"

definition toggle_awards :: "string \<Rightarrow> string \<Rightarrow> appState \<Rightarrow> award list" where
  "toggle_awards questId stepId st = snd (toggleQuestStep_run questId stepId st)"

text \<open>A sequence of \<^verbatim>\<open>toggleQuestStep\<close> calls, with all the XP updates it dispatched.\<close>

fun run_toggles :: "(string \<times> string) list \<Rightarrow> appState \<Rightarrow> appState \<times> award list" where
  "run_toggles [] st = (st, [])"
| "run_toggles ((questId, stepId) # calls) st =
     (let (st1, awards1) = toggleQuestStep_run questId stepId st;
          (st2, awards2) = run_toggles calls st1
      in (st2, awards1 @ awards2))"

text \<open>\<^verbatim>\<open>resetAllQuests\<close>.\<close>

definition resetAllQuests :: "appState \<Rightarrow> appState" where
  "resetAllQuests st =
     st\<lparr>mainQuests :=
          map (\<lambda>quest. quest\<lparr>q_progress := Num 0,
                 q_steps := map (\<lambda>s. s\<lparr>step_completed := False\<rparr>) (q_steps quest)\<rparr>)
            (mainQuests st),
        completedQuests := []\<rparr>"

text \<open>\<^verbatim>\<open>handleQuestComplete\<close>: completing a daily quest.\<close>

definition handleQuestComplete :: "int \<Rightarrow> appState \<Rightarrow> appState" where
  "handleQuestComplete questId st =
     (let results =
            map (\<lambda>quest. if d_id quest = questId \<and> \<not> d_completed quest
                          then (quest\<lparr>d_completed := True\<rparr>, [d_xp quest])
                          else (quest, [])) (dailyQuests st)
      in addXP (sum_list (concat (map snd results))) (st\<lparr>dailyQuests := map fst results\<rparr>))"

text \<open>
  \<^verbatim>\<open>resetDailyQuests\<close>; \<open>currentDate\<close> is what \<^verbatim>\<open>getCurrentDateString()\<close> returns
  at the call.
\<close>

definition resetDailyQuests :: "string \<Rightarrow> appState \<Rightarrow> appState" where
  "resetDailyQuests currentDate st =
     st\<lparr>dailyQuests := map (\<lambda>quest. quest\<lparr>d_completed := False\<rparr>) (dailyQuests st),
        lastResetDate := currentDate\<rparr>"

section \<open>A part of the initial state\<close>

text \<open>The decimal numeral of a number, as a template literal prints it.\<close>

fun decimal :: "nat \<Rightarrow> string" where
  "decimal n =
     (if n < 10 then [''0123456789'' ! n]
      else decimal (n div 10) @ [''0123456789'' ! (n mod 10)])"

declare decimal.simps [simp del]

text \<open>
  Two quests and two daily quests of the source's initial state: \<^verbatim>\<open>career-1\<close> and
  \<^verbatim>\<open>career-8\<close> with their 20 steps each, and the daily quests 1 and 2. The display
  texts (Ukrainian in the source), which no operation reads, are left empty. The steps
  are built as in the source:
  \<^verbatim>\<open>Array.from({length: 20}, (_, i) => ({id: `c1-s${i+1}`, text: ..., completed: false}))\<close>
\<close>

definition initial_steps :: "string \<Rightarrow> step list" where
  "initial_steps p =
     map (\<lambda>i. \<lparr>step_id = p @ decimal (i + 1), step_text = [], step_completed = False\<rparr>)
       [0..<20]"

definition career_1 :: mainQuest where
  "career_1 = \<lparr>q_id = ''career-1'', q_title = [], q_description = [], q_icon = [],
     q_xp = 1000, q_category = ''career'', q_progress = Num 0, q_color = ''#3b82f6'',
     q_steps = initial_steps ''c1-s''\<rparr>"

definition career_8 :: mainQuest where
  "career_8 = \<lparr>q_id = ''career-8'', q_title = [], q_description = [], q_icon = [],
     q_xp = 1000, q_category = ''career'', q_progress = Num 5, q_color = ''#10b981'',
     q_steps = initial_steps ''c8-s''\<rparr>"

definition initial_state :: appState where
  "initial_state =
     \<lparr>profile = \<lparr>profile_name = [], avatar = [], totalXP = 0, profile_level = 0,
                  streak = 0, mood = [], moodText = []\<rparr>,
      dailyQuests =
        [\<lparr>d_id = 1, d_title = [], d_xp = 100, d_completed = False, d_emoji = [],
          d_color = ''#6b7280'', d_category = ''morning''\<rparr>,
         \<lparr>d_id = 2, d_title = [], d_xp = 80, d_completed = False, d_emoji = [],
          d_color = ''#8b5cf6'', d_category = ''morning''\<rparr>],
      mainQuests = [career_1, career_8],
      completedQuests = [],
      lastResetDate = [],
      selectedCharacter = [],
      notifications = True,
      progressReminders = True,
      soundEnabled = False,
      vibrationsEnabled = True,
      theme = Light,
      animationsEnabled = True\<rparr>"

text \<open>
  A sequence of calls on that state: it completes every step of \<^verbatim>\<open>career-1\<close>, last
  step first, repeats some of the calls, and completes one step of \<^verbatim>\<open>career-8\<close>.
\<close>

definition sample_calls :: "(string \<times> string) list" where
  "sample_calls =
     [(''career-1'', ''c1-s20''), (''career-1'', ''c1-s20''), (''career-8'', ''c8-s3'')]
     @ map (\<lambda>i. (''career-1'', ''c1-s'' @ decimal (i + 1))) (rev [0..<19])
     @ [(''career-1'', ''c1-s17''), (''career-1'', ''c1-s1'')]"

text \<open>
  The state after the first 19 steps of \<^verbatim>\<open>career-1\<close>, whose last step is pending,
  and the same state with \<^verbatim>\<open>career-1\<close> already in \<^verbatim>\<open>completedQuests\<close>, as
  \<^verbatim>\<open>loadUserData\<close> restores it from an aggregate that says so.
\<close>

definition first_nineteen :: "(string \<times> string) list" where
  "first_nineteen = map (\<lambda>i. (''career-1'', ''c1-s'' @ decimal (i + 1))) [0..<19]"

definition last_step_pending :: appState where
  "last_step_pending = fst (run_toggles first_nineteen initial_state)"

definition ledger_ahead :: appState where
  "ledger_ahead = last_step_pending\<lparr>completedQuests := [''career-1'']\<rparr>"

section \<open>Predicates on quest states\<close>

text \<open>A quest is done when every step of it is completed.\<close>

definition all_done :: "mainQuest \<Rightarrow> bool" where
  "all_done quest = list_all step_completed (q_steps quest)"

definition quest_done :: "appState \<Rightarrow> string \<Rightarrow> bool" where
  "quest_done st questId = list_ex (\<lambda>quest. q_id quest = questId \<and> all_done quest) (mainQuests st)"

text \<open>
  The data model of the specification: quest ids are unique, step ids are unique within
  their quest, and the completion bonus \<^verbatim>\<open>xp\<close> is positive.
\<close>

definition quests_wf :: "appState \<Rightarrow> bool" where
  "quests_wf st =
     (distinct (map q_id (mainQuests st))
      \<and> list_all (\<lambda>quest. distinct (map step_id (q_steps quest)) \<and> 0 < q_xp quest) (mainQuests st))"

text \<open>The completion ledger names only quests whose steps are all completed.\<close>

definition ledger_sound :: "appState \<Rightarrow> bool" where
  "ledger_sound st =
     list_all (\<lambda>quest. set_has (completedQuests st) (q_id quest) \<longrightarrow> all_done quest) (mainQuests st)"

text \<open>A pending step: a step of quest \<open>questId\<close> with id \<open>stepId\<close> that is not completed.\<close>

definition pending_step :: "string \<Rightarrow> string \<Rightarrow> appState \<Rightarrow> bool" where
  "pending_step questId stepId st =
     list_ex (\<lambda>quest. q_id quest = questId
                \<and> list_ex (\<lambda>s. step_id s = stepId \<and> \<not> step_completed s) (q_steps quest))
       (mainQuests st)"

text \<open>The stored progress of quest \<open>questId\<close> agrees with its steps.\<close>

definition progress_in_sync :: "string \<Rightarrow> appState \<Rightarrow> bool" where
  "progress_in_sync questId st =
     list_all (\<lambda>quest. q_id quest = questId \<longrightarrow> q_progress quest = getQuestProgress quest)
       (mainQuests st)"

text \<open>
  Quest \<open>questId\<close> with its stored progress rewritten to the percentage of its steps.
\<close>

definition sync_progress :: "string \<Rightarrow> mainQuest \<Rightarrow> mainQuest" where
  "sync_progress questId quest =
     (if q_id quest = questId then quest\<lparr>q_progress := getQuestProgress quest\<rparr> else quest)"

section \<open>Durable store\<close>

text \<open>
  The two Web Storage areas behind \<^verbatim>\<open>Storage\<close>. An area can refuse reads (storage
  disabled: every access throws) or writes (quota exceeded); \<^verbatim>\<open>getItem\<close> of a missing
  key is \<^verbatim>\<open>null\<close>, here \<open>None\<close>.
\<close>

datatype storage_error = StorageError

record medium =
  readable :: bool
  writable :: bool
  items :: "string \<rightharpoonup> string"

definition medium_getItem :: "medium \<Rightarrow> string \<Rightarrow> storage_error + string option" where
  "medium_getItem m key = (if readable m then Inr (items m key) else Inl StorageError)"

definition medium_setItem :: "medium \<Rightarrow> string \<Rightarrow> string \<Rightarrow> storage_error + medium" where
  "medium_setItem m key v =
     (if writable m then Inr (m\<lparr>items := (items m)(key \<mapsto> v)\<rparr>) else Inl StorageError)"

record browser =
  localStorage :: medium
  sessionStorage :: medium

text \<open>\<^verbatim>\<open>if (data)\<close> on a \<^verbatim>\<open>string | null\<close>: \<^verbatim>\<open>null\<close> and the empty string are falsy.\<close>

definition truthy_string :: "string option \<Rightarrow> bool" where
  "truthy_string data = (case data of None \<Rightarrow> False | Some s \<Rightarrow> s \<noteq> [])"

text \<open>
  \<^verbatim>\<open>Storage.setItem\<close>. The writes of the \<^verbatim>\<open>try\<close> block that succeeded before one
  throws stay done; the \<^verbatim>\<open>catch\<close> block then tries \<^verbatim>\<open>sessionStorage.setItem(key, value)\<close>
  and swallows its failure. \<open>now\<close> is \<^verbatim>\<open>Date.now().toString()\<close>.
\<close>

definition setItem_fallback :: "string \<Rightarrow> string \<Rightarrow> browser \<Rightarrow> browser" where
  "setItem_fallback key v b =
     (case medium_setItem (sessionStorage b) key v of
        Inl sessionError \<Rightarrow> b
      | Inr ss \<Rightarrow> b\<lparr>sessionStorage := ss\<rparr>)"

definition Storage_setItem :: "string \<Rightarrow> string \<Rightarrow> string \<Rightarrow> browser \<Rightarrow> browser" where
  "Storage_setItem key v now b =
     (case medium_setItem (localStorage b) key v of
        Inl error \<Rightarrow> setItem_fallback key v b
      | Inr ls1 \<Rightarrow>
          let b1 = b\<lparr>localStorage := ls1\<rparr> in
          (case medium_setItem (sessionStorage b1) (key @ ''_backup'') v of
             Inl error \<Rightarrow> setItem_fallback key v b1
           | Inr ss1 \<Rightarrow>
               let b2 = b1\<lparr>sessionStorage := ss1\<rparr> in
               (case medium_setItem (localStorage b2) (key @ ''_timestamp'') now of
                  Inl error \<Rightarrow> setItem_fallback key v b2
                | Inr ls2 \<Rightarrow> b2\<lparr>localStorage := ls2\<rparr>)))"

text \<open>
  \<^verbatim>\<open>Storage.getItem\<close>: one \<^verbatim>\<open>try\<close> block around the three lookups; its
  \<^verbatim>\<open>catch\<close> returns \<^verbatim>\<open>null\<close>. The timestamp is read only for the log line.
\<close>

definition Storage_getItem :: "string \<Rightarrow> browser \<Rightarrow> string option" where
  "Storage_getItem key b =
     (case medium_getItem (localStorage b) key of
        Inl error \<Rightarrow> None
      | Inr data \<Rightarrow>
          if truthy_string data then
            (case medium_getItem (localStorage b) (key @ ''_timestamp'') of
               Inl error \<Rightarrow> None
             | Inr timestamp \<Rightarrow> data)
          else
            (case medium_getItem (sessionStorage b) key of
               Inl error \<Rightarrow> None
             | Inr data \<Rightarrow>
                 if truthy_string data then data
                 else
                   (case medium_getItem (sessionStorage b) (key @ ''_backup'') of
                      Inl error \<Rightarrow> None
                    | Inr data \<Rightarrow> if truthy_string data then data else None)))"

text \<open>
  A browser whose \<^verbatim>\<open>localStorage\<close> throws on every access and whose
  \<^verbatim>\<open>sessionStorage\<close> works; both are empty.
\<close>

definition blocked_local :: browser where
  "blocked_local =
     \<lparr>localStorage = \<lparr>readable = False, writable = False, items = Map.empty\<rparr>,
      sessionStorage = \<lparr>readable = True, writable = True, items = Map.empty\<rparr>\<rparr>"

section \<open>Persisted aggregate\<close>

text \<open>
  What \<^verbatim>\<open>JSON.parse\<close> returns and \<^verbatim>\<open>JSON.stringify\<close> takes: a JSON value. Numbers
  are the integers (the program stores no fraction); an object is the list of its
  members, read by key.
\<close>

datatype json =
    JNull
  | JBool bool
  | JNum int
  | JStr string
  | JArr "json list"
  | JObj "(string \<times> json) list"

text \<open>
  \<^verbatim>\<open>data[field]\<close>, with \<open>None\<close> for \<^verbatim>\<open>undefined\<close>. Only objects have the members
  this program reads (\<^verbatim>\<open>userProfile\<close>, \<^verbatim>\<open>totalXP\<close>, ...); on a number, a string, a
  boolean or an array those reads give \<^verbatim>\<open>undefined\<close>.
\<close>

fun get_prop :: "json \<Rightarrow> string \<Rightarrow> json option" where
  "get_prop (JObj members) key = map_of members key"
| "get_prop other key = None"

text \<open>JavaScript truthiness, as \<^verbatim>\<open>if (x)\<close> and \<^verbatim>\<open>!x\<close> test it.\<close>

fun truthy :: "json option \<Rightarrow> bool" where
  "truthy None = False"
| "truthy (Some JNull) = False"
| "truthy (Some (JBool b)) = b"
| "truthy (Some (JNum n)) = (n \<noteq> 0)"
| "truthy (Some (JStr s)) = (s \<noteq> [])"
| "truthy (Some (JArr xs)) = True"
| "truthy (Some (JObj members)) = True"

text \<open>\<^verbatim>\<open>typeof data === 'object'\<close> holds of objects, arrays and \<^verbatim>\<open>null\<close>.\<close>

fun typeof_object :: "json \<Rightarrow> bool" where
  "typeof_object JNull = True"
| "typeof_object (JArr xs) = True"
| "typeof_object (JObj members) = True"
| "typeof_object other = False"

fun typeof_number :: "json option \<Rightarrow> bool" where
  "typeof_number (Some (JNum n)) = True"
| "typeof_number other = False"

text \<open>\<^verbatim>\<open>validateUserData\<close>.\<close>

definition requiredFields :: "string list" where
  "requiredFields = [''userProfile'', ''dailyQuests'', ''mainQuests'']"

definition validateUserData :: "json \<Rightarrow> bool" where
  "validateUserData data =
     (if \<not> truthy (Some data) \<or> \<not> typeof_object data then False
      else if list_ex (\<lambda>field. \<not> truthy (get_prop data field)) requiredFields then False
      else
        (case get_prop data ''userProfile'' of
           None \<Rightarrow> False
         | Some userProfile \<Rightarrow>
             if \<not> typeof_number (get_prop userProfile ''totalXP'') then False else True))"

subsection \<open>Writing the aggregate\<close>

definition step_json :: "step \<Rightarrow> json" where
  "step_json s =
     JObj [(''id'', JStr (step_id s)), (''text'', JStr (step_text s)),
           (''completed'', JBool (step_completed s))]"

text \<open>\<^verbatim>\<open>JSON.stringify\<close> writes \<^verbatim>\<open>NaN\<close> as \<^verbatim>\<open>null\<close>.\<close>

fun jsnum_json :: "jsnum \<Rightarrow> json" where
  "jsnum_json (Num n) = JNum n"
| "jsnum_json NaN = JNull"

definition mainQuest_json :: "mainQuest \<Rightarrow> json" where
  "mainQuest_json quest =
     JObj [(''id'', JStr (q_id quest)), (''title'', JStr (q_title quest)),
           (''description'', JStr (q_description quest)), (''icon'', JStr (q_icon quest)),
           (''xp'', JNum (q_xp quest)), (''category'', JStr (q_category quest)),
           (''progress'', jsnum_json (q_progress quest)), (''color'', JStr (q_color quest)),
           (''steps'', JArr (map step_json (q_steps quest)))]"

definition dailyQuest_json :: "dailyQuest \<Rightarrow> json" where
  "dailyQuest_json quest =
     JObj [(''id'', JNum (d_id quest)), (''title'', JStr (d_title quest)),
           (''xp'', JNum (d_xp quest)), (''completed'', JBool (d_completed quest)),
           (''emoji'', JStr (d_emoji quest)), (''color'', JStr (d_color quest)),
           (''category'', JStr (d_category quest))]"

definition userProfile_json :: "userProfile \<Rightarrow> json" where
  "userProfile_json p =
     JObj [(''name'', JStr (profile_name p)), (''avatar'', JStr (avatar p)),
           (''totalXP'', JNum (totalXP p)), (''level'', JNum (profile_level p)),
           (''streak'', JNum (streak p)), (''mood'', JStr (mood p)),
           (''moodText'', JStr (moodText p))]"

fun theme_json :: "themeType \<Rightarrow> json" where
  "theme_json Light = JStr ''light''"
| "theme_json Dark = JStr ''dark''"
| "theme_json Accent = JStr ''accent''"

text \<open>
  The \<^verbatim>\<open>userData\<close> object of \<^verbatim>\<open>saveUserData\<close>; \<open>savedAt\<close> is
  \<^verbatim>\<open>new Date().toISOString()\<close>.
\<close>

definition userData :: "string \<Rightarrow> appState \<Rightarrow> json" where
  "userData savedAt st =
     JObj [(''userProfile'', userProfile_json (profile st)),
           (''dailyQuests'', JArr (map dailyQuest_json (dailyQuests st))),
           (''mainQuests'', JArr (map mainQuest_json (mainQuests st))),
           (''completedQuests'', JArr (map JStr (completedQuests st))),
           (''lastResetDate'', JStr (lastResetDate st)),
           (''selectedCharacter'', JStr (selectedCharacter st)),
           (''notifications'', JBool (notifications st)),
           (''progressReminders'', JBool (progressReminders st)),
           (''soundEnabled'', JBool (soundEnabled st)),
           (''vibrationsEnabled'', JBool (vibrationsEnabled st)),
           (''theme'', theme_json (theme st)),
           (''animationsEnabled'', JBool (animationsEnabled st)),
           (''version'', JStr ''1.0.1''),
           (''savedAt'', JStr savedAt)]"

text \<open>
  \<^verbatim>\<open>saveUserData\<close>. \<open>stringify\<close> stands for \<^verbatim>\<open>JSON.stringify\<close>, \<open>now\<close> for the
  time stamp \<^verbatim>\<open>Storage.setItem\<close> writes.
\<close>

definition saveUserData ::
  "(json \<Rightarrow> string) \<Rightarrow> string \<Rightarrow> string \<Rightarrow> appState \<Rightarrow> browser \<Rightarrow> browser" where
  "saveUserData stringify savedAt now st b =
     (if \<not> validateUserData (userData savedAt st) then b
      else Storage_setItem ''userProgressData'' (stringify (userData savedAt st)) now b)"

subsection \<open>Reading the aggregate back\<close>

text \<open>
  The state setters of \<^verbatim>\<open>loadUserData\<close> store whatever value the aggregate holds.
  The typed state can hold it only when it has the shape \<^verbatim>\<open>saveUserData\<close> writes;
  the readers below return \<open>None\<close> otherwise.
\<close>

fun as_string :: "json option \<Rightarrow> string option" where
  "as_string (Some (JStr s)) = Some s"
| "as_string other = None"

fun as_bool :: "json option \<Rightarrow> bool option" where
  "as_bool (Some (JBool b)) = Some b"
| "as_bool other = None"

fun as_int :: "json option \<Rightarrow> int option" where
  "as_int (Some (JNum n)) = Some n"
| "as_int other = None"

fun as_jsnum :: "json option \<Rightarrow> jsnum option" where
  "as_jsnum (Some (JNum n)) = Some (Num n)"
| "as_jsnum other = None"

fun as_array :: "json option \<Rightarrow> json list option" where
  "as_array (Some (JArr xs)) = Some xs"
| "as_array other = None"

definition step_of_json :: "json \<Rightarrow> step option" where
  "step_of_json j = do {
     i \<leftarrow> as_string (get_prop j ''id'');
     t \<leftarrow> as_string (get_prop j ''text'');
     c \<leftarrow> as_bool (get_prop j ''completed'');
     Some \<lparr>step_id = i, step_text = t, step_completed = c\<rparr>
   }"

definition mainQuest_of_json :: "json \<Rightarrow> mainQuest option" where
  "mainQuest_of_json j = do {
     i \<leftarrow> as_string (get_prop j ''id'');
     t \<leftarrow> as_string (get_prop j ''title'');
     d \<leftarrow> as_string (get_prop j ''description'');
     ic \<leftarrow> as_string (get_prop j ''icon'');
     x \<leftarrow> as_int (get_prop j ''xp'');
     cat \<leftarrow> as_string (get_prop j ''category'');
     p \<leftarrow> as_jsnum (get_prop j ''progress'');
     col \<leftarrow> as_string (get_prop j ''color'');
     xs \<leftarrow> as_array (get_prop j ''steps'');
     ss \<leftarrow> those (map step_of_json xs);
     Some \<lparr>q_id = i, q_title = t, q_description = d, q_icon = ic, q_xp = x,
           q_category = cat, q_progress = p, q_color = col, q_steps = ss\<rparr>
   }"

definition dailyQuest_of_json :: "json \<Rightarrow> dailyQuest option" where
  "dailyQuest_of_json j = do {
     i \<leftarrow> as_int (get_prop j ''id'');
     t \<leftarrow> as_string (get_prop j ''title'');
     x \<leftarrow> as_int (get_prop j ''xp'');
     c \<leftarrow> as_bool (get_prop j ''completed'');
     e \<leftarrow> as_string (get_prop j ''emoji'');
     col \<leftarrow> as_string (get_prop j ''color'');
     cat \<leftarrow> as_string (get_prop j ''category'');
     Some \<lparr>d_id = i, d_title = t, d_xp = x, d_completed = c, d_emoji = e,
           d_color = col, d_category = cat\<rparr>
   }"

definition userProfile_of_json :: "json \<Rightarrow> userProfile option" where
  "userProfile_of_json j = do {
     n \<leftarrow> as_string (get_prop j ''name'');
     a \<leftarrow> as_string (get_prop j ''avatar'');
     x \<leftarrow> as_int (get_prop j ''totalXP'');
     l \<leftarrow> as_int (get_prop j ''level'');
     s \<leftarrow> as_int (get_prop j ''streak'');
     m \<leftarrow> as_string (get_prop j ''mood'');
     mt \<leftarrow> as_string (get_prop j ''moodText'');
     Some \<lparr>profile_name = n, avatar = a, totalXP = x, profile_level = l, streak = s,
           mood = m, moodText = mt\<rparr>
   }"

definition theme_of_json :: "json \<Rightarrow> themeType option" where
  "theme_of_json j =
     (if j = JStr ''light'' then Some Light
      else if j = JStr ''dark'' then Some Dark
      else if j = JStr ''accent'' then Some Accent
      else None)"

definition array_of :: "(json \<Rightarrow> 'a option) \<Rightarrow> json \<Rightarrow> 'a list option" where
  "array_of read j = do { xs \<leftarrow> as_array (Some j); those (map read xs) }"

text \<open>
  One guarded setter of \<^verbatim>\<open>loadUserData\<close>: when the guard holds, the value is
  stored. \<open>Inl OutsideModel\<close> says that the stored value is not of the shape the typed
  state holds (there the source stores it all the same, or \<^verbatim>\<open>new Set\<close> throws
  part-way into the \<^verbatim>\<open>catch\<close>).
\<close>

datatype load_error = OutsideModel

definition guarded_set ::
  "bool \<Rightarrow> json option \<Rightarrow> (json \<Rightarrow> 'a option) \<Rightarrow> ('a \<Rightarrow> appState \<Rightarrow> appState)
    \<Rightarrow> appState \<Rightarrow> load_error + appState" where
  "guarded_set guard v read setter st =
     (if guard then
        (case v of
           None \<Rightarrow> Inl OutsideModel
         | Some j \<Rightarrow> (case read j of None \<Rightarrow> Inl OutsideModel | Some x \<Rightarrow> Inr (setter x st)))
      else Inr st)"

definition and_then ::
  "load_error + appState \<Rightarrow> (appState \<Rightarrow> load_error + appState) \<Rightarrow> load_error + appState" where
  "and_then r f = (case r of Inl e \<Rightarrow> Inl e | Inr st \<Rightarrow> f st)"

text \<open>
  The part of \<^verbatim>\<open>loadUserData\<close> after validation: the guarded setters in the order
  of the source. \<^verbatim>\<open>if (userData.x)\<close> guards by truthiness,
  \<^verbatim>\<open>if (userData.x !== undefined)\<close> by presence.
\<close>

definition restore :: "json \<Rightarrow> appState \<Rightarrow> load_error + appState" where
  "restore data st =
     foldl and_then (Inr st)
       [guarded_set (truthy (get_prop data ''userProfile'')) (get_prop data ''userProfile'')
          userProfile_of_json
          (\<lambda>p st. let st1 = st\<lparr>profile := p\<rparr> in
                   if avatar p \<noteq> [] then st1\<lparr>selectedCharacter := avatar p\<rparr> else st1),
        guarded_set (truthy (get_prop data ''dailyQuests'')) (get_prop data ''dailyQuests'')
          (array_of dailyQuest_of_json) (\<lambda>x st. st\<lparr>dailyQuests := x\<rparr>),
        guarded_set (truthy (get_prop data ''mainQuests'')) (get_prop data ''mainQuests'')
          (array_of mainQuest_of_json) (\<lambda>x st. st\<lparr>mainQuests := x\<rparr>),
        guarded_set (truthy (get_prop data ''completedQuests''))
          (get_prop data ''completedQuests'')
          (array_of (\<lambda>j. as_string (Some j)))
          (\<lambda>x st. st\<lparr>completedQuests := set_from_array x\<rparr>),
        guarded_set (truthy (get_prop data ''lastResetDate'')) (get_prop data ''lastResetDate'')
          (\<lambda>j. as_string (Some j)) (\<lambda>x st. st\<lparr>lastResetDate := x\<rparr>),
        guarded_set (get_prop data ''notifications'' \<noteq> None) (get_prop data ''notifications'')
          (\<lambda>j. as_bool (Some j)) (\<lambda>x st. st\<lparr>notifications := x\<rparr>),
        guarded_set (get_prop data ''progressReminders'' \<noteq> None)
          (get_prop data ''progressReminders'')
          (\<lambda>j. as_bool (Some j)) (\<lambda>x st. st\<lparr>progressReminders := x\<rparr>),
        guarded_set (get_prop data ''soundEnabled'' \<noteq> None) (get_prop data ''soundEnabled'')
          (\<lambda>j. as_bool (Some j)) (\<lambda>x st. st\<lparr>soundEnabled := x\<rparr>),
        guarded_set (get_prop data ''vibrationsEnabled'' \<noteq> None)
          (get_prop data ''vibrationsEnabled'')
          (\<lambda>j. as_bool (Some j)) (\<lambda>x st. st\<lparr>vibrationsEnabled := x\<rparr>),
        guarded_set (truthy (get_prop data ''theme'')) (get_prop data ''theme'')
          theme_of_json (\<lambda>x st. st\<lparr>theme := x\<rparr>),
        guarded_set (get_prop data ''animationsEnabled'' \<noteq> None)
          (get_prop data ''animationsEnabled'')
          (\<lambda>j. as_bool (Some j)) (\<lambda>x st. st\<lparr>animationsEnabled := x\<rparr>)]"

text \<open>
  \<^verbatim>\<open>loadUserData\<close>, with the part after validation as a parameter. \<open>parse\<close> stands
  for \<^verbatim>\<open>JSON.parse\<close>; \<open>None\<close> is its \<^verbatim>\<open>SyntaxError\<close>, which the \<^verbatim>\<open>catch\<close> block
  logs.
\<close>

definition loadUserData_with ::
  "(json \<Rightarrow> appState \<Rightarrow> load_error + appState) \<Rightarrow> (string \<Rightarrow> json option) \<Rightarrow> browser
    \<Rightarrow> appState \<Rightarrow> load_error + appState" where
  "loadUserData_with apply parse b st =
     (case Storage_getItem ''userProgressData'' b of
        None \<Rightarrow> Inr st
      | Some savedData \<Rightarrow>
          if savedData = [] then Inr st
          else
            (case parse savedData of
               None \<Rightarrow> Inr st
             | Some data \<Rightarrow> if \<not> validateUserData data then Inr st else apply data st))"

definition loadUserData ::
  "(string \<Rightarrow> json option) \<Rightarrow> browser \<Rightarrow> appState \<Rightarrow> load_error + appState" where
  "loadUserData parse b st = loadUserData_with restore parse b st"

subsection \<open>Reachable states\<close>

text \<open>
  A state as the program starts in: quests as in the specification's data model, each
  with at least one step, a numeric stored progress and no completed step; no XP and an
  empty ledger.
\<close>

definition fresh :: "appState \<Rightarrow> bool" where
  "fresh st =
     (quests_wf st \<and> completedQuests st = [] \<and> totalXP (profile st) = 0
      \<and> list_all (\<lambda>quest. q_steps quest \<noteq> [] \<and> q_progress quest \<noteq> NaN
                     \<and> list_all (\<lambda>s. \<not> step_completed s) (q_steps quest)) (mainQuests st)
      \<and> list_all (\<lambda>quest. \<not> d_completed quest) (dailyQuests st))"

text \<open>The states the quest operations reach from a fresh one.\<close>

inductive reachable :: "appState \<Rightarrow> bool" where
  start: "fresh st \<Longrightarrow> reachable st"
| completeDaily: "reachable st \<Longrightarrow> reachable (handleQuestComplete questId st)"
| toggle: "reachable st \<Longrightarrow> reachable (toggleQuestStep questId stepId st)"
| resetMain: "reachable st \<Longrightarrow> reachable (resetAllQuests st)"
| resetDaily: "reachable st \<Longrightarrow> reachable (resetDailyQuests currentDate st)"

text \<open>
  What the round trip needs of a state: the ledger is a set, and every stored progress
  is a number.
\<close>

definition persistable :: "appState \<Rightarrow> bool" where
  "persistable st =
     (distinct (completedQuests st)
      \<and> list_all (\<lambda>quest. q_steps quest \<noteq> [] \<and> q_progress quest \<noteq> NaN) (mainQuests st))"

text \<open>
  A browser with working storage, and an aggregate without the \<^verbatim>\<open>mainQuests\<close> key.
\<close>

definition working_browser :: browser where
  "working_browser =
     \<lparr>localStorage = \<lparr>readable = True, writable = True, items = Map.empty\<rparr>,
      sessionStorage = \<lparr>readable = True, writable = True, items = Map.empty\<rparr>\<rparr>"

definition aggregate_without_mainQuests :: json where
  "aggregate_without_mainQuests =
     JObj [(''userProfile'', JObj [(''name'', JStr ''Player''), (''totalXP'', JNum 120)]),
           (''dailyQuests'', JArr []),
           (''completedQuests'', JArr [])]"

text \<open>
  A completed step: a step of quest \<open>questId\<close> with id \<open>stepId\<close> that is completed.
\<close>

definition completed_step :: "string \<Rightarrow> string \<Rightarrow> appState \<Rightarrow> bool" where
  "completed_step questId stepId st =
     list_ex (\<lambda>quest. q_id quest = questId
                \<and> list_ex (\<lambda>s. step_id s = stepId \<and> step_completed s) (q_steps quest))
       (mainQuests st)"

text \<open>
  Every quest either stores the progress of its steps or has no completed step (it still
  carries the progress of the initial data).
\<close>

definition progress_settled :: "appState \<Rightarrow> bool" where
  "progress_settled st =
     list_all (\<lambda>quest. q_progress quest = getQuestProgress quest
                 \<or> list_all (\<lambda>s. \<not> step_completed s) (q_steps quest)) (mainQuests st)"

section \<open>Daily reset scheduler\<close>

text \<open>
  What the scheduler reads of the clock at a call. \<open>kyivWallClock\<close> is the wall-clock
  time \<^verbatim>\<open>now.toLocaleString("en-US", {timeZone: "Europe/Kiev"})\<close> prints, in
  seconds since 1970-01-01 00:00:00 of that wall clock; \<open>hostOffset\<close> is the offset of
  the host's own time zone from UTC, in seconds (local time = UTC + offset).
\<close>

record clock =
  kyivWallClock :: int
  hostOffset :: int

text \<open>
  A \<^verbatim>\<open>Date\<close> is its time value, here in seconds since the epoch (UTC).
  \<^verbatim>\<open>new Date(text)\<close> reads a date-time text without a zone as local time of the
  host; \<^verbatim>\<open>getHours\<close> gives the hour in local time of the host; \<^verbatim>\<open>toISOString\<close>
  prints the date and time in UTC. The host has the one offset \<open>hostOffset\<close> for
  reading and for printing. A wall-clock text that falls into the hour the host's own
  clock skips when its daylight saving time begins is read with one offset and printed
  with another; such a clock is outside this model.
\<close>

definition Date_of_local_text :: "clock \<Rightarrow> int \<Rightarrow> int" where
  "Date_of_local_text c wall = wall - hostOffset c"

definition getHours :: "clock \<Rightarrow> int \<Rightarrow> int" where
  "getHours c date = ((date + hostOffset c) mod 86400) div 3600"

text \<open>The proleptic Gregorian date (year, month, day) of a day number, day 0 = 1970-01-01.\<close>

definition civil_from_days :: "int \<Rightarrow> int \<times> int \<times> int" where
  "civil_from_days z0 =
     (let z = z0 + 719468;
          era = z div 146097;
          doe = z mod 146097;
          yoe = (doe - doe div 1460 + doe div 36524 - doe div 146096) div 365;
          y = yoe + era * 400;
          doy = doe - (365 * yoe + yoe div 4 - yoe div 100);
          mp = (5 * doy + 2) div 153;
          d = doy - (153 * mp + 2) div 5 + 1;
          m = (if mp < 10 then mp + 3 else mp - 9)
      in (if m \<le> 2 then y + 1 else y, m, d))"

definition pad :: "nat \<Rightarrow> int \<Rightarrow> string" where
  "pad width n = replicate (width - length (decimal (nat n))) CHR ''0'' @ decimal (nat n)"

text \<open>
  \<^verbatim>\<open>date.toISOString().split('T')[0]\<close>: \<open>YYYY-MM-DD\<close> of the UTC day of the time
  value (for the years 0 to 9999).
\<close>

definition toISOString_date :: "int \<Rightarrow> string" where
  "toISOString_date date =
     (case civil_from_days (date div 86400) of
        (y, m, d) \<Rightarrow> pad 4 y @ ''-'' @ pad 2 m @ ''-'' @ pad 2 d)"

text \<open>
  \<^verbatim>\<open>getKyivTime\<close>, \<^verbatim>\<open>getCurrentDateString\<close> and \<^verbatim>\<open>shouldResetDailyQuests\<close>;
  \<open>lastReset\<close> is the \<^verbatim>\<open>lastResetDate\<close> of the state.
\<close>

definition getKyivTime :: "clock \<Rightarrow> int" where
  "getKyivTime c = Date_of_local_text c (kyivWallClock c)"

definition getCurrentDateString :: "clock \<Rightarrow> string" where
  "getCurrentDateString c = toISOString_date (getKyivTime c)"

definition shouldResetDailyQuests :: "clock \<Rightarrow> string \<Rightarrow> bool" where
  "shouldResetDailyQuests c lastReset =
     (let currentDate = getCurrentDateString c;
          currentTime = getKyivTime c
      in if lastReset \<noteq> currentDate \<and> getHours c currentTime \<ge> 4 then True else False)"

text \<open>
  The specification's \<open>currentDateKey\<close> and \<open>hourOfDay\<close>: the calendar date and the hour
  of the Kyiv wall clock.
\<close>

definition currentDateKey :: "clock \<Rightarrow> string" where
  "currentDateKey c = toISOString_date (kyivWallClock c)"

definition hourOfDay :: "clock \<Rightarrow> int" where
  "hourOfDay c = (kyivWallClock c mod 86400) div 3600"

text \<open>
  Two clocks. On a host five hours behind UTC, the Kyiv wall clock shows 2024-01-01
  20:00. On a host five and a half hours ahead of UTC, it shows 2024-01-02 04:30.
\<close>

definition evening_on_western_host :: clock where
  "evening_on_western_host = \<lparr>kyivWallClock = 19723 * 86400 + 20 * 3600, hostOffset = - 18000\<rparr>"

definition morning_on_eastern_host :: clock where
  "morning_on_eastern_host =
     \<lparr>kyivWallClock = 19724 * 86400 + 4 * 3600 + 1800, hostOffset = 19800\<rparr>"

definition morning_on_kyiv_host :: clock where
  "morning_on_kyiv_host = \<lparr>kyivWallClock = 19724 * 86400 + 4 * 3600 + 1800, hostOffset = 7200\<rparr>"

section \<open>Properties of the level walk\<close>

lemma levelTable_length: "length levelTable = 100"
  by (simp add: levelTable_def)

lemma levelTable_positive: "\<forall>c \<in> set levelTable. 0 < c"
  by (simp add: levelTable_def)

lemma getLevel_loop_bounds:
  "getLevel_loop cs t i xp = Some l \<Longrightarrow> i < l \<and> l \<le> i + length cs"
proof (induction cs arbitrary: t i)
  case Nil
  then show ?case by simp
next
  case (Cons c cs)
  show ?case
  proof (cases "xp < t + c")
    case True
    with Cons.prems show ?thesis by simp
  next
    case False
    with Cons.prems have "getLevel_loop cs (t + c) (i + 1) xp = Some l" by simp
    from Cons.IH[OF this] show ?thesis by simp
  qed
qed

lemma getLevel_loop_first:
  "j < length cs \<Longrightarrow> xp < t + sum_list (take (Suc j) cs)
    \<Longrightarrow> \<forall>k<j. \<not> xp < t + sum_list (take (Suc k) cs)
    \<Longrightarrow> getLevel_loop cs t i xp = Some (i + j + 1)"
proof (induction cs arbitrary: t i j)
  case Nil
  then show ?case by simp
next
  case (Cons c cs)
  show ?case
  proof (cases j)
    case 0
    with Cons.prems show ?thesis by simp
  next
    case (Suc j')
    from Cons.prems(3) Suc have nofirst: "\<not> xp < t + c"
      by (metis sum_list.Cons sum_list.Nil take_Suc_Cons take_0 add.right_neutral zero_less_Suc)
    have len: "j' < length cs" using Cons.prems(1) Suc by simp
    have hit: "xp < (t + c) + sum_list (take (Suc j') cs)"
      using Cons.prems(2) Suc by (simp add: add.assoc)
    have miss: "\<forall>k<j'. \<not> xp < (t + c) + sum_list (take (Suc k) cs)"
    proof (intro allI impI)
      fix k assume "k < j'"
      then have "Suc k < j" using Suc by simp
      with Cons.prems(3) have "\<not> xp < t + sum_list (take (Suc (Suc k)) (c # cs))" by blast
      then show "\<not> xp < (t + c) + sum_list (take (Suc k) cs)" by (simp add: add.assoc)
    qed
    from Cons.IH[OF len hit miss, of "i + 1"] nofirst Suc show ?thesis by simp
  qed
qed

lemma getLevel_loop_none:
  "\<forall>c \<in> set cs. 0 \<le> c \<Longrightarrow> t + sum_list cs \<le> xp \<Longrightarrow> getLevel_loop cs t i xp = None"
proof (induction cs arbitrary: t i)
  case Nil
  then show ?case by simp
next
  case (Cons c cs)
  have "0 \<le> sum_list cs" using Cons.prems(1) by (simp add: sum_list_nonneg)
  with Cons.prems(2) have "\<not> xp < t + c" by simp
  moreover have "getLevel_loop cs (t + c) (i + 1) xp = None"
    using Cons.IH[of "t + c" "i + 1"] Cons.prems by (simp add: add.assoc)
  ultimately show ?case by simp
qed

lemma getLevel_loop_mono:
  "xp \<le> xp' \<Longrightarrow> getLevel_loop cs t i xp = Some l
    \<Longrightarrow> (case getLevel_loop cs t i xp' of Some l' \<Rightarrow> l \<le> l' | None \<Rightarrow> True)"
proof (induction cs arbitrary: t i)
  case Nil
  then show ?case by simp
next
  case (Cons c cs)
  show ?case
  proof (cases "xp' < t + c")
    case True
    with Cons.prems show ?thesis by simp
  next
    case hi: False
    show ?thesis
    proof (cases "xp < t + c")
      case True
      with Cons.prems have l: "l = i + 1" by simp
      show ?thesis
      proof (cases "getLevel_loop cs (t + c) (i + 1) xp'")
        case None
        with hi show ?thesis by simp
      next
        case (Some l')
        from getLevel_loop_bounds[OF this] hi Some l show ?thesis by simp
      qed
    next
      case False
      with Cons.prems have "getLevel_loop cs (t + c) (i + 1) xp = Some l" by simp
      from Cons.IH[OF Cons.prems(1) this] hi show ?thesis by simp
    qed
  qed
qed

lemma getLevel_loop_none_mono:
  "xp \<le> xp' \<Longrightarrow> getLevel_loop cs t i xp = None \<Longrightarrow> getLevel_loop cs t i xp' = None"
  by (induction cs arbitrary: t i) (auto split: if_splits)

lemma getLevel_in_mono: "xp \<le> xp' \<Longrightarrow> getLevel_in tbl xp \<le> getLevel_in tbl xp'"
proof -
  assume le: "xp \<le> xp'"
  show ?thesis
  proof (cases "getLevel_loop tbl 0 0 xp")
    case None
    from getLevel_loop_none_mono[OF le None] None show ?thesis
      by (simp add: getLevel_in_def)
  next
    case (Some l)
    show ?thesis
    proof (cases "getLevel_loop tbl 0 0 xp'")
      case None
      from getLevel_loop_bounds[OF Some] None Some show ?thesis
        by (simp add: getLevel_in_def)
    next
      case (Some l')
      from getLevel_loop_mono[OF le \<open>getLevel_loop tbl 0 0 xp = Some l\<close>] Some
        \<open>getLevel_loop tbl 0 0 xp = Some l\<close>
      show ?thesis by (simp add: getLevel_in_def)
    qed
  qed
qed

lemma getLevel_in_range: "tbl \<noteq> [] \<Longrightarrow> 1 \<le> getLevel_in tbl xp \<and> getLevel_in tbl xp \<le> length tbl"
proof (cases "getLevel_loop tbl 0 0 xp")
  case None
  assume "tbl \<noteq> []"
  then have "1 \<le> length tbl" by (cases tbl) simp_all
  with None show ?thesis by (simp add: getLevel_in_def)
next
  case (Some l)
  from getLevel_loop_bounds[OF Some] Some show ?thesis
    by (simp add: getLevel_in_def)
qed

lemma getLevel_loop_lower:
  "getLevel_loop cs t i xp = Some l \<Longrightarrow> t \<le> xp \<Longrightarrow> t + sum_list (take (l - i - 1) cs) \<le> xp"
proof (induction cs arbitrary: t i)
  case Nil
  then show ?case by simp
next
  case (Cons c cs)
  show ?case
  proof (cases "xp < t + c")
    case True
    with Cons.prems show ?thesis by simp
  next
    case False
    with Cons.prems have rec: "getLevel_loop cs (t + c) (i + 1) xp = Some l" by simp
    from getLevel_loop_bounds[OF rec] have "l - i - 1 = Suc (l - (i + 1) - 1)" by arith
    moreover from Cons.IH[OF rec] False
    have "(t + c) + sum_list (take (l - (i + 1) - 1) cs) \<le> xp" by simp
    ultimately show ?thesis by (simp add: add.assoc)
  qed
qed

lemma totalXpForLevels_cumulative:
  "n \<le> length levelTable \<Longrightarrow> totalXpForLevels n = cumulativeCost n"
proof (induction n)
  case 0
  show ?case by (simp add: totalXpForLevels_def cumulativeCost_def)
next
  case (Suc n)
  then have "totalXpForLevels n = cumulativeCost n" by simp
  moreover have "take (Suc n) levelTable = take n levelTable @ [levelTable ! n]"
    using Suc.prems by (simp add: take_Suc_conv_app_nth)
  ultimately show ?case by (simp add: totalXpForLevels_def cumulativeCost_def)
qed

lemma getLevel_first_index:
  assumes "i < 100" and "xp < cumulativeCost (i + 1)"
    and "\<forall>k<i. \<not> xp < cumulativeCost (k + 1)"
  shows "getLevel xp = i + 1"
proof -
  have "getLevel_loop levelTable 0 0 xp = Some (0 + i + 1)"
    by (rule getLevel_loop_first) (use assms in \<open>simp_all add: levelTable_length cumulativeCost_def\<close>)
  then show ?thesis by (simp add: getLevel_def getLevel_in_def)
qed

lemma getLevel_cap: "sum_list levelTable \<le> xp \<Longrightarrow> getLevel xp = 100"
proof -
  assume "sum_list levelTable \<le> xp"
  then have "getLevel_loop levelTable 0 0 xp = None"
    using levelTable_positive by (intro getLevel_loop_none) (auto simp: less_imp_le)
  then show ?thesis by (simp add: getLevel_def getLevel_in_def levelTable_length)
qed

lemma getLevel_range: "1 \<le> getLevel xp \<and> getLevel xp \<le> 100"
proof -
  have "levelTable \<noteq> []" using levelTable_length by auto
  from getLevel_in_range[OF this, of xp] show ?thesis
    by (simp add: getLevel_def levelTable_length)
qed

lemma getLevel_mono: "xp \<le> xp' \<Longrightarrow> getLevel xp \<le> getLevel xp'"
  by (simp add: getLevel_def getLevel_in_mono)

lemma getLevel_examples: "getLevel 0 = 1 \<and> getLevel 499 = 1 \<and> getLevel 500 = 2"
  by (simp add: getLevel_def getLevel_in_def levelTable_def)

lemma cumulative_below_level:
  assumes "0 \<le> xp" and "getLevel xp < 100"
  shows "cumulativeCost (getLevel xp - 1) \<le> xp"
proof (cases "getLevel_loop levelTable 0 0 xp")
  case None
  with assms(2) show ?thesis by (simp add: getLevel_def getLevel_in_def levelTable_length)
next
  case (Some l)
  from getLevel_loop_lower[OF Some] assms(1) Some show ?thesis
    by (simp add: getLevel_def getLevel_in_def cumulativeCost_def)
qed

text \<open>
  C4. For every integer \<open>xp \<ge> 0\<close>, \<open>getLevel xp\<close> is \<open>i + 1\<close> for the first index \<open>i\<close>
  of the 100-entry table at which the cumulative cost exceeds \<open>xp\<close>, and 100 when \<open>xp\<close>
  reaches or exceeds the sum of the whole table; so the level lies between 1 and 100, it
  is non-decreasing in \<open>xp\<close>, and with \<open>cost[0] = 500\<close> the levels of 0, 499 and 500 are
  1, 1 and 2.
\<close>

theorem getLevel_walk:
  "0 \<le> xp \<Longrightarrow>
     length levelTable = 100
   \<and> (\<forall>i<100. xp < cumulativeCost (i + 1) \<and> (\<forall>k<i. \<not> xp < cumulativeCost (k + 1))
          \<longrightarrow> getLevel xp = i + 1)
   \<and> (sum_list levelTable \<le> xp \<longrightarrow> getLevel xp = 100)
   \<and> 1 \<le> getLevel xp \<and> getLevel xp \<le> 100
   \<and> (\<forall>xp'. xp \<le> xp' \<longrightarrow> getLevel xp \<le> getLevel xp')
   \<and> levelTable ! 0 = 500 \<and> getLevel 0 = 1 \<and> getLevel 499 = 1 \<and> getLevel 500 = 2"
  using getLevel_range[of xp] getLevel_examples
  by (auto simp: levelTable_length getLevel_first_index getLevel_cap getLevel_mono)
     (simp add: levelTable_def)

theorem getLevel_walk_witness:
  "(0::int) \<le> 1040 \<and> getLevel 1040 = 3 \<and> (1040::int) \<le> 2000000000
   \<and> getLevel 1040 \<le> getLevel 2000000000 \<and> getLevel (sum_list levelTable) = 100"
proof -
  have nn: "(0::int) \<le> 1040" by simp
  have c3: "(1040::int) < cumulativeCost (2 + 1)"
    by (simp add: cumulativeCost_def levelTable_def)
  have c2: "\<forall>k<2. \<not> (1040::int) < cumulativeCost (k + 1)"
    by (simp add: cumulativeCost_def levelTable_def less_Suc_eq numeral_2_eq_2)
  have big: "(0::int) \<le> sum_list levelTable" by (simp add: levelTable_def)
  from getLevel_walk[OF nn]
  have walk: "\<forall>i<100. 1040 < cumulativeCost (i + 1) \<and> (\<forall>k<i. \<not> 1040 < cumulativeCost (k + 1))
          \<longrightarrow> getLevel 1040 = i + 1"
    by (elim conjE)
  from walk[rule_format, of 2] c3 c2 have "getLevel 1040 = 3" by simp
  moreover from getLevel_walk[OF nn] have "getLevel 1040 \<le> getLevel 2000000000" by auto
  moreover from getLevel_walk[OF big] have "getLevel (sum_list levelTable) = 100" by auto
  ultimately show ?thesis by simp
qed

section \<open>Progress within a level\<close>

lemma levelTable_nth_positive: "i < 100 \<Longrightarrow> 0 < levelTable ! i"
  using levelTable_positive by (simp add: levelTable_length)

lemma getLevelProgress_below_cap:
  assumes "getLevel xp < 100"
  shows "getLevelProgress xp =
    min 100 (100 * real_of_int (xp - cumulativeCost (getLevel xp - 1))
               / real_of_int (levelTable ! (getLevel xp - 1)))"
proof -
  have "getLevel xp - 1 \<le> length levelTable"
    using assms by (simp add: levelTable_length)
  then have "totalXpForLevels (getLevel xp - 1) = cumulativeCost (getLevel xp - 1)"
    by (rule totalXpForLevels_cumulative)
  with assms show ?thesis
    by (simp add: getLevelProgress_def Let_def mult.commute)
qed

lemma getLevelProgress_at_cap: "100 \<le> getLevel xp \<Longrightarrow> getLevelProgress xp = 100"
  by (simp add: getLevelProgress_def)

lemma getLevelProgress_upper: "getLevelProgress xp \<le> 100"
  by (simp add: getLevelProgress_def Let_def)

lemma getLevelProgress_lower:
  assumes "0 \<le> xp"
  shows "0 \<le> getLevelProgress xp"
proof (cases "getLevel xp < 100")
  case True
  have "0 \<le> xp - cumulativeCost (getLevel xp - 1)"
    using cumulative_below_level[OF assms True] by simp
  moreover have "0 < levelTable ! (getLevel xp - 1)"
    using True by (intro levelTable_nth_positive) simp
  ultimately have "0 \<le> 100 * real_of_int (xp - cumulativeCost (getLevel xp - 1))
               / real_of_int (levelTable ! (getLevel xp - 1))"
    by simp
  then show ?thesis by (simp add: getLevelProgress_below_cap[OF True])
next
  case False
  then show ?thesis by (simp add: getLevelProgress_at_cap)
qed

lemma getLevel_250: "getLevel 250 = 1"
  by (simp add: getLevel_def getLevel_in_def levelTable_def)

lemma getLevelProgress_250: "getLevelProgress 250 = 50"
  by (simp add: getLevelProgress_def getLevel_250 totalXpForLevels_def levelTable_def)

text \<open>
  C5, as stated: for every integer \<open>xp\<close>, negative ones included, the progress percentage
  lies in \<open>[0, 100]\<close>. The source clamps with \<^verbatim>\<open>Math.min(100, ...)\<close> only, so a negative
  \<open>xp\<close> gives a negative percentage: \<open>xp = -500\<close> gives \<open>-100\<close>.
\<close>

theorem getLevelProgress_negative_counterexample:
  "\<not> (\<forall>xp. 0 \<le> getLevelProgress xp \<and> getLevelProgress xp \<le> 100)"
proof
  assume "\<forall>xp. 0 \<le> getLevelProgress xp \<and> getLevelProgress xp \<le> 100"
  then have "0 \<le> getLevelProgress (- 500)" by blast
  moreover have "getLevelProgress (- 500) = - 100"
    by (simp add: getLevelProgress_def getLevel_def getLevel_in_def totalXpForLevels_def
        levelTable_def)
  ultimately show False by simp
qed

text \<open>
  C5, amended: the progress percentage is at most 100 for every integer \<open>xp\<close> and at
  least 0 for every \<open>xp \<ge> 0\<close>; it is 100 when \<open>getLevel xp \<ge> 100\<close> and otherwise
  \<open>min 100 (100 * xpIntoLevel / cost[level - 1])\<close>, where \<open>xpIntoLevel\<close> is \<open>xp\<close> minus the
  cumulative cost through \<open>level - 1\<close>; with \<open>cost[0] = 500\<close> the progress of 250 is 50.
\<close>

theorem getLevelProgress_range:
  "(0 \<le> xp \<longrightarrow> 0 \<le> getLevelProgress xp)
   \<and> getLevelProgress xp \<le> 100
   \<and> (100 \<le> getLevel xp \<longrightarrow> getLevelProgress xp = 100)
   \<and> (getLevel xp < 100 \<longrightarrow> getLevelProgress xp =
         min 100 (100 * real_of_int (xp - cumulativeCost (getLevel xp - 1))
                    / real_of_int (levelTable ! (getLevel xp - 1))))
   \<and> levelTable ! 0 = 500 \<and> getLevelProgress 250 = 50"
  using getLevelProgress_lower getLevelProgress_upper getLevelProgress_at_cap
    getLevelProgress_below_cap getLevelProgress_250
  by (simp add: levelTable_def)

theorem getLevelProgress_range_witness:
  "(0::int) \<le> 770 \<and> getLevel 770 = 2 \<and> getLevelProgress 770 = 50
   \<and> 0 \<le> getLevelProgress 770 \<and> getLevelProgress 770 \<le> 100
   \<and> 100 \<le> getLevel 2000000000 \<and> getLevelProgress 2000000000 = 100"
proof -
  have l2: "getLevel 770 = 2"
    by (simp add: getLevel_def getLevel_in_def levelTable_def)
  have cap: "100 \<le> getLevel 2000000000"
    by (simp add: getLevel_def getLevel_in_def levelTable_def)
  have c1: "cumulativeCost (2 - 1) = 500" and n1: "levelTable ! (2 - 1) = 540"
    by (simp_all add: cumulativeCost_def levelTable_def)
  from getLevelProgress_range[of 770] l2 c1 n1 have "getLevelProgress 770 = 50" by simp
  moreover from getLevelProgress_range[of 770]
  have "0 \<le> getLevelProgress 770 \<and> getLevelProgress 770 \<le> 100" by simp
  moreover from getLevelProgress_range[of 2000000000] cap
  have "getLevelProgress 2000000000 = 100" by blast
  ultimately show ?thesis using l2 cap by simp
qed

section \<open>XP to the next level\<close>

text \<open>
  C6 says that below the cap \<open>getXPToNextLevel xp\<close> is the XP remaining to the next
  level boundary, the cumulative cost through \<open>getLevel xp\<close> minus \<open>xp\<close>. The source
  subtracts \<open>xp\<close> from the single table entry \<^verbatim>\<open>levelTable[currentLevel]\<close> instead: at
  \<open>xp = 0\<close> it returns 540 where 500 XP remain, and at \<open>xp = 600\<close> it returns \<open>-17\<close>
  where 440 XP remain.
\<close>

theorem getXPToNextLevel_single_entry:
  "getLevel 0 = 1 \<and> getXPToNextLevel 0 = 540 \<and> cumulativeCost (getLevel 0) - 0 = 500
   \<and> getLevel 600 = 2 \<and> getXPToNextLevel 600 = - 17
   \<and> cumulativeCost (getLevel 600) - 600 = 440"
proof -
  have l0: "getLevel 0 = 1" and l600: "getLevel 600 = 2"
    by (simp_all add: getLevel_def getLevel_in_def levelTable_def)
  show ?thesis
    by (simp add: getXPToNextLevel_def l0 l600 cumulativeCost_def levelTable_def)
qed
section \<open>Properties of the quest operations\<close>

text \<open>
  The percentage follows the doubles: 23 of 40 steps give 57 (the exact quotient 57.5
  would give 58), 1 of 8 gives 13, and the 20-step quests of the source give multiples
  of 5.
\<close>

lemma round_percent_examples:
  "round_percent 23 40 = Num 57 \<and> round_percent 1 8 = Num 13
   \<and> round_percent 1 20 = Num 5 \<and> round_percent 7 20 = Num 35
   \<and> round_percent 20 20 = Num 100 \<and> round_percent 0 20 = Num 0
   \<and> round_percent 0 0 = NaN"
  by code_simp

lemma addXP_zero: "addXP 0 st = st"
  by (simp add: addXP_def)

lemma updateSteps_noop:
  "\<not> list_ex (\<lambda>s. step_id s = stepId \<and> \<not> step_completed s) steps \<Longrightarrow>
   updateSteps stepId steps = steps"
  unfolding updateSteps_def by (induction steps) auto

lemma updateSteps_settled:
  "\<not> list_ex (\<lambda>s. step_id s = stepId \<and> \<not> step_completed s) (updateSteps stepId steps)"
  unfolding updateSteps_def by (induction steps) auto

lemma updateSteps_ids: "map step_id (updateSteps stepId steps) = map step_id steps"
  unfolding updateSteps_def by (induction steps) auto

lemma updateSteps_length: "length (updateSteps stepId steps) = length steps"
  by (simp add: updateSteps_def)

lemma updateSteps_keeps_done:
  "list_all step_completed steps \<Longrightarrow> list_all step_completed (updateSteps stepId steps)"
  unfolding updateSteps_def by (induction steps) auto

lemma find_no_pending:
  "\<not> list_ex (\<lambda>s. step_id s = stepId \<and> \<not> step_completed s) steps \<Longrightarrow>
   find (\<lambda>s. step_id s = stepId) steps = Some st \<Longrightarrow> step_completed st"
  by (induction steps) (auto split: if_splits)

lemma find_pending:
  "distinct (map step_id steps) \<Longrightarrow>
   list_ex (\<lambda>s. step_id s = stepId \<and> \<not> step_completed s) steps \<Longrightarrow>
   \<exists>st. find (\<lambda>s. step_id s = stepId) steps = Some st \<and> \<not> step_completed st"
proof (induction steps)
  case Nil
  then show ?case by simp
next
  case (Cons s steps)
  show ?case
  proof (cases "step_id s = stepId")
    case True
    with Cons.prems(1) have "\<not> list_ex (\<lambda>s. step_id s = stepId) steps"
      by (force simp: list_ex_iff image_iff)
    then have "\<not> list_ex (\<lambda>s. step_id s = stepId \<and> \<not> step_completed s) steps"
      by (auto simp: list_ex_iff)
    with Cons.prems(2) True show ?thesis by simp
  next
    case False
    with Cons show ?thesis by simp
  qed
qed

lemma filter_all_length: "(length (filter P xs) = length xs) = list_all P xs"
proof (induction xs)
  case Nil
  show ?case by simp
next
  case (Cons x xs)
  have "length (filter P xs) \<noteq> Suc (length xs)"
    using length_filter_le[of P xs] by arith
  with Cons show ?case by auto
qed

lemma toggle_in_quest_result:
  "fst (toggle_in_quest questId stepId c quest) =
    (if q_id quest = questId then
       quest\<lparr>q_steps := updateSteps stepId (q_steps quest),
             q_progress := round_percent
               (length (filter step_completed (updateSteps stepId (q_steps quest))))
               (length (q_steps quest))\<rparr>
     else quest)"
  by (simp add: toggle_in_quest_def Let_def)

lemma toggle_in_quest_id: "q_id (fst (toggle_in_quest questId stepId c quest)) = q_id quest"
  by (simp add: toggle_in_quest_result)

lemma toggle_in_quest_xp: "q_xp (fst (toggle_in_quest questId stepId c quest)) = q_xp quest"
  by (simp add: toggle_in_quest_result)

lemma toggle_in_quest_step_ids:
  "map step_id (q_steps (fst (toggle_in_quest questId stepId c quest))) = map step_id (q_steps quest)"
  by (simp add: toggle_in_quest_result updateSteps_ids)

lemma toggle_in_quest_keeps_done:
  "all_done quest \<Longrightarrow> all_done (fst (toggle_in_quest questId stepId c quest))"
  by (simp add: toggle_in_quest_result all_done_def updateSteps_keeps_done)

lemma toggle_in_quest_awards:
  assumes "distinct (map step_id (q_steps quest))"
  shows "snd (toggle_in_quest questId stepId c quest) =
    (if q_id quest = questId
        \<and> list_ex (\<lambda>s. step_id s = stepId \<and> \<not> step_completed s) (q_steps quest)
     then StepAward 30 #
          (if all_done (fst (toggle_in_quest questId stepId c quest)) \<and> \<not> set_has c questId
           then [QuestBonus questId (questBonus quest)] else [])
     else [])"
proof (cases "q_id quest = questId")
  case False
  then show ?thesis by (simp add: toggle_in_quest_def)
next
  case True
  show ?thesis
  proof (cases "list_ex (\<lambda>s. step_id s = stepId \<and> \<not> step_completed s) (q_steps quest)")
    case pending: True
    from find_pending[OF assms pending] obtain st where
      "find (\<lambda>s. step_id s = stepId) (q_steps quest) = Some st" "\<not> step_completed st" by blast
    moreover have "(length (filter step_completed (updateSteps stepId (q_steps quest)))
                      = length (q_steps quest))
                   = list_all step_completed (updateSteps stepId (q_steps quest))"
      using filter_all_length[of step_completed "updateSteps stepId (q_steps quest)"]
      by (simp add: updateSteps_length)
    ultimately show ?thesis using True pending
      by (simp add: toggle_in_quest_def Let_def all_done_def)
  next
    case False
    have "(case find (\<lambda>s. step_id s = stepId) (q_steps quest) of
                 Some st \<Rightarrow> if \<not> step_completed st then StepAward 30 # X else []
               | None \<Rightarrow> []) = []" for X
      using find_no_pending[OF False] by (auto split: option.splits)
    with True False show ?thesis by (simp add: toggle_in_quest_def Let_def)
  qed
qed

lemma toggle_in_quest_no_pending:
  assumes "\<not> list_ex (\<lambda>s. step_id s = stepId \<and> \<not> step_completed s) (q_steps quest)"
  shows "toggle_in_quest questId stepId c quest = (sync_progress questId quest, [])"
proof (cases "q_id quest = questId")
  case False
  then show ?thesis by (simp add: toggle_in_quest_def sync_progress_def)
next
  case True
  have "(case find (\<lambda>s. step_id s = stepId) (q_steps quest) of
                 Some st \<Rightarrow> if \<not> step_completed st then StepAward 30 # X else []
               | None \<Rightarrow> []) = []" for X
    using find_no_pending[OF assms] by (auto split: option.splits)
  with True show ?thesis
    by (simp add: toggle_in_quest_def sync_progress_def Let_def updateSteps_noop[OF assms]
        getQuestProgress_def)
qed

lemma sync_after_toggle:
  "sync_progress questId (fst (toggle_in_quest questId stepId c quest))
     = fst (toggle_in_quest questId stepId c quest)"
  by (simp add: sync_progress_def toggle_in_quest_result getQuestProgress_def updateSteps_length)

lemma mainQuests_toggle:
  "mainQuests (toggleQuestStep questId stepId st)
     = map (\<lambda>quest. fst (toggle_in_quest questId stepId (completedQuests st) quest)) (mainQuests st)"
  by (simp add: toggleQuestStep_def toggleQuestStep_run_def Let_def addXP_def comp_def)

lemma toggle_awards_concat:
  "toggle_awards questId stepId st
     = concat (map (\<lambda>quest. snd (toggle_in_quest questId stepId (completedQuests st) quest))
         (mainQuests st))"
  by (simp add: toggle_awards_def toggleQuestStep_run_def Let_def comp_def)

lemma completedQuests_toggle:
  "completedQuests (toggleQuestStep questId stepId st)
     = fold record_completion (toggle_awards questId stepId st) (completedQuests st)"
  by (simp add: toggleQuestStep_def toggle_awards_def toggleQuestStep_run_def Let_def addXP_def)

lemma totalXP_toggle:
  "totalXP (profile (toggleQuestStep questId stepId st))
     = totalXP (profile st) + sum_list (map award_xp (toggle_awards questId stepId st))"
  by (simp add: toggleQuestStep_def toggle_awards_def toggleQuestStep_run_def Let_def addXP_def)

lemma toggleQuestStep_run_pair:
  "toggleQuestStep_run questId stepId st
     = (toggleQuestStep questId stepId st, toggle_awards questId stepId st)"
  by (simp add: toggleQuestStep_def toggle_awards_def)

lemma toggleQuestStep_run_no_pending:
  assumes "\<not> pending_step questId stepId st"
  shows "toggleQuestStep_run questId stepId st =
     (st\<lparr>mainQuests := map (sync_progress questId) (mainQuests st)\<rparr>, [])"
proof -
  have each: "toggle_in_quest questId stepId (completedQuests st) quest
                = (sync_progress questId quest, [])"
    if q: "quest \<in> set (mainQuests st)" for quest
  proof (cases "q_id quest = questId")
    case False
    then show ?thesis by (simp add: toggle_in_quest_def sync_progress_def)
  next
    case True
    with assms q
    have "\<not> list_ex (\<lambda>s. step_id s = stepId \<and> \<not> step_completed s) (q_steps quest)"
      by (auto simp: pending_step_def list_ex_iff)
    then show ?thesis by (rule toggle_in_quest_no_pending)
  qed
  then have m: "map (toggle_in_quest questId stepId (completedQuests st)) (mainQuests st)
      = map (\<lambda>quest. (sync_progress questId quest, [])) (mainQuests st)"
    by (simp cong: map_cong)
  have c: "concat (map snd (map (\<lambda>quest. (sync_progress questId quest, [])) quests))
             = ([]::award list)" for quests
    by (induction quests) simp_all
  show ?thesis
    unfolding toggleQuestStep_run_def Let_def m c
    by (simp add: addXP_zero comp_def)
qed

lemma toggle_in_quest_settled:
  "q_id quest = questId \<Longrightarrow>
   \<not> list_ex (\<lambda>s. step_id s = stepId \<and> \<not> step_completed s)
       (q_steps (fst (toggle_in_quest questId stepId c quest)))"
  by (simp add: toggle_in_quest_result updateSteps_settled)

lemma no_pending_after_toggle: "\<not> pending_step questId stepId (toggleQuestStep questId stepId st)"
proof
  assume "pending_step questId stepId (toggleQuestStep questId stepId st)"
  then obtain quest where "quest \<in> set (mainQuests st)"
    and "q_id (fst (toggle_in_quest questId stepId (completedQuests st) quest)) = questId"
    and p: "list_ex (\<lambda>s. step_id s = stepId \<and> \<not> step_completed s)
         (q_steps (fst (toggle_in_quest questId stepId (completedQuests st) quest)))"
    unfolding pending_step_def mainQuests_toggle list_ex_iff by auto
  then have "q_id quest = questId" by (simp add: toggle_in_quest_id)
  from toggle_in_quest_settled[OF this] p show False by blast
qed

lemma toggleQuestStep_twice:
  "toggleQuestStep_run questId stepId (toggleQuestStep questId stepId st)
     = (toggleQuestStep questId stepId st, [])"
proof -
  let ?st1 = "toggleQuestStep questId stepId st"
  have "map (sync_progress questId) (mainQuests ?st1) = mainQuests ?st1"
    by (simp add: mainQuests_toggle sync_after_toggle comp_def)
  then have "?st1\<lparr>mainQuests := map (sync_progress questId) (mainQuests ?st1)\<rparr> = ?st1"
    by simp
  with toggleQuestStep_run_no_pending[OF no_pending_after_toggle, of questId stepId st]
  show ?thesis by simp
qed

lemma sync_progress_unknown:
  "questId \<notin> set (map q_id quests) \<Longrightarrow> map (sync_progress questId) quests = quests"
  by (induction quests) (auto simp: sync_progress_def)

lemma sync_progress_in_sync:
  "progress_in_sync questId st \<Longrightarrow> map (sync_progress questId) (mainQuests st) = mainQuests st"
  unfolding progress_in_sync_def
  by (auto simp: sync_progress_def list_all_iff intro!: map_idI)


section \<open>The completion bonus\<close>

lemma bonus_count_append:
  "bonus_count qid (xs @ ys) = bonus_count qid xs + bonus_count qid ys"
  by (simp add: bonus_count_def)

lemma bonus_count_concat:
  "bonus_count qid (concat xss) = sum_list (map (bonus_count qid) xss)"
  by (induction xss) (simp_all add: bonus_count_append, simp add: bonus_count_def)

lemma bonus_count_pos: "(0 < bonus_count qid awards) = (\<exists>a \<in> set awards. is_bonus_for qid a)"
  by (induction awards) (auto simp: bonus_count_def)

lemma unique_by_id:
  "distinct (map q_id quests) \<Longrightarrow> x \<in> set quests \<Longrightarrow> y \<in> set quests
    \<Longrightarrow> q_id x = q_id y \<Longrightarrow> x = y"
  by (auto simp: distinct_map dest: inj_onD)

lemma sum_unique_quest:
  fixes g :: "mainQuest \<Rightarrow> nat"
  assumes "distinct (map q_id quests)"
    and "\<forall>quest \<in> set quests. g quest = (if q_id quest = qid \<and> P quest then 1 else 0)"
  shows "sum_list (map g quests)
          = (if \<exists>quest \<in> set quests. q_id quest = qid \<and> P quest then 1 else 0)"
  using assms
proof (induction quests)
  case Nil
  then show ?case by simp
next
  case (Cons q qs)
  have IH: "sum_list (map g qs) = (if \<exists>quest \<in> set qs. q_id quest = qid \<and> P quest then 1 else 0)"
    using Cons by simp
  show ?case
  proof (cases "q_id q = qid \<and> P q")
    case True
    with Cons.prems(1) have "\<not> (\<exists>quest \<in> set qs. q_id quest = qid \<and> P quest)"
      by (force simp: image_iff)
    with IH True Cons.prems(2) show ?thesis by simp
  next
    case False
    with IH Cons.prems(2) show ?thesis by auto
  qed
qed

lemma bonus_in_quest:
  assumes "distinct (map step_id (q_steps quest))"
  shows "bonus_count qid (snd (toggle_in_quest questId stepId c quest)) =
    (if q_id quest = qid \<and> (questId = qid
        \<and> list_ex (\<lambda>s. step_id s = stepId \<and> \<not> step_completed s) (q_steps quest)
        \<and> all_done (fst (toggle_in_quest questId stepId c quest))
        \<and> \<not> set_has c qid) then 1 else 0)"
  by (auto simp: toggle_in_quest_awards[OF assms] bonus_count_def)

lemma bonus_step_raw:
  assumes "quests_wf st"
  shows "bonus_count qid (toggle_awards questId stepId st) =
    (if \<exists>quest \<in> set (mainQuests st). q_id quest = qid \<and> (questId = qid
        \<and> list_ex (\<lambda>s. step_id s = stepId \<and> \<not> step_completed s) (q_steps quest)
        \<and> all_done (fst (toggle_in_quest questId stepId (completedQuests st) quest))
        \<and> \<not> set_has (completedQuests st) qid) then 1 else 0)"
proof -
  have d: "distinct (map q_id (mainQuests st))" using assms by (simp add: quests_wf_def)
  have each: "\<forall>quest \<in> set (mainQuests st).
      bonus_count qid (snd (toggle_in_quest questId stepId (completedQuests st) quest)) =
      (if q_id quest = qid \<and> (questId = qid
        \<and> list_ex (\<lambda>s. step_id s = stepId \<and> \<not> step_completed s) (q_steps quest)
        \<and> all_done (fst (toggle_in_quest questId stepId (completedQuests st) quest))
        \<and> \<not> set_has (completedQuests st) qid) then 1 else 0)"
  proof
    fix quest assume "quest \<in> set (mainQuests st)"
    with assms have "distinct (map step_id (q_steps quest))"
      by (auto simp: quests_wf_def list_all_iff)
    then show "bonus_count qid (snd (toggle_in_quest questId stepId (completedQuests st) quest)) =
      (if q_id quest = qid \<and> (questId = qid
        \<and> list_ex (\<lambda>s. step_id s = stepId \<and> \<not> step_completed s) (q_steps quest)
        \<and> all_done (fst (toggle_in_quest questId stepId (completedQuests st) quest))
        \<and> \<not> set_has (completedQuests st) qid) then 1 else 0)"
      by (rule bonus_in_quest)
  qed
  from sum_unique_quest[OF d each] show ?thesis
    by (simp add: toggle_awards_concat bonus_count_concat comp_def)
qed

lemma quest_done_after:
  "quest_done (toggleQuestStep questId stepId st) qid =
    (\<exists>quest \<in> set (mainQuests st). q_id quest = qid
       \<and> all_done (fst (toggle_in_quest questId stepId (completedQuests st) quest)))"
  by (auto simp: quest_done_def mainQuests_toggle list_ex_iff toggle_in_quest_id)

lemma pending_not_done:
  "list_ex (\<lambda>s. step_id s = stepId \<and> \<not> step_completed s) (q_steps quest) \<Longrightarrow> \<not> all_done quest"
  by (auto simp: all_done_def list_ex_iff list_all_iff)

lemma becomes_done:
  assumes "\<not> all_done quest" and "all_done (fst (toggle_in_quest questId stepId c quest))"
  shows "q_id quest = questId
    \<and> list_ex (\<lambda>s. step_id s = stepId \<and> \<not> step_completed s) (q_steps quest)"
proof -
  have id: "q_id quest = questId"
    using assms by (auto simp: toggle_in_quest_result split: if_splits)
  have "list_ex (\<lambda>s. step_id s = stepId \<and> \<not> step_completed s) (q_steps quest)"
  proof (rule ccontr)
    assume "\<not> ?thesis"
    from updateSteps_noop[OF this] assms id show False
      by (simp add: toggle_in_quest_result all_done_def)
  qed
  with id show ?thesis by simp
qed

text \<open>One call: the bonus of quest \<open>qid\<close> is dispatched exactly under the source's test.\<close>

lemma bonus_step:
  assumes "quests_wf st"
  shows "bonus_count qid (toggle_awards questId stepId st) =
    (if questId = qid \<and> pending_step qid stepId st
        \<and> quest_done (toggleQuestStep questId stepId st) qid
        \<and> \<not> set_has (completedQuests st) qid then 1 else 0)"
proof -
  have d: "distinct (map q_id (mainQuests st))" using assms by (simp add: quests_wf_def)
  have "(\<exists>quest \<in> set (mainQuests st). q_id quest = qid
        \<and> list_ex (\<lambda>s. step_id s = stepId \<and> \<not> step_completed s) (q_steps quest)
        \<and> all_done (fst (toggle_in_quest questId stepId (completedQuests st) quest)))
     = (pending_step qid stepId st \<and> quest_done (toggleQuestStep questId stepId st) qid)"
    (is "?L = ?R")
  proof
    assume ?L
    then show ?R by (auto simp: pending_step_def quest_done_after list_ex_iff)
  next
    assume ?R
    then obtain q1 q2 where q1: "q1 \<in> set (mainQuests st)" "q_id q1 = qid"
        "list_ex (\<lambda>s. step_id s = stepId \<and> \<not> step_completed s) (q_steps q1)"
      and q2: "q2 \<in> set (mainQuests st)" "q_id q2 = qid"
        "all_done (fst (toggle_in_quest questId stepId (completedQuests st) q2))"
      unfolding pending_step_def quest_done_after list_ex_iff by blast
    from unique_by_id[OF d q1(1) q2(1)] q1(2) q2(2) have "q1 = q2" by simp
    with q1 q2 show ?L by blast
  qed
  then show ?thesis unfolding bonus_step_raw[OF assms] by auto
qed

text \<open>One call, seen from outside: a bonus is dispatched exactly when the quest becomes done.\<close>

lemma bonus_step_transition:
  assumes wf: "quests_wf st" and ls: "ledger_sound st"
  shows "bonus_count qid (toggle_awards questId stepId st) =
    (if \<not> quest_done st qid \<and> quest_done (toggleQuestStep questId stepId st) qid then 1 else 0)"
proof -
  have d: "distinct (map q_id (mainQuests st))" using wf by (simp add: quests_wf_def)
  have "(questId = qid \<and> pending_step qid stepId st
        \<and> quest_done (toggleQuestStep questId stepId st) qid
        \<and> \<not> set_has (completedQuests st) qid)
      = (\<not> quest_done st qid \<and> quest_done (toggleQuestStep questId stepId st) qid)"
    (is "?L = ?R")
  proof
    assume L: ?L
    then obtain q1 where q1: "q1 \<in> set (mainQuests st)" "q_id q1 = qid"
        "list_ex (\<lambda>s. step_id s = stepId \<and> \<not> step_completed s) (q_steps q1)"
      unfolding pending_step_def list_ex_iff by blast
    have "\<not> quest_done st qid"
    proof
      assume "quest_done st qid"
      then obtain q2 where q2: "q2 \<in> set (mainQuests st)" "q_id q2 = qid" "all_done q2"
        unfolding quest_done_def list_ex_iff by blast
      from unique_by_id[OF d q1(1) q2(1)] q1(2) q2(2) have "q1 = q2" by simp
      with pending_not_done[OF q1(3)] q2(3) show False by simp
    qed
    with L show ?R by blast
  next
    assume R: ?R
    then obtain q2 where q2: "q2 \<in> set (mainQuests st)" "q_id q2 = qid"
        "all_done (fst (toggle_in_quest questId stepId (completedQuests st) q2))"
      unfolding quest_done_after by blast
    from R q2 have nd: "\<not> all_done q2" by (auto simp: quest_done_def list_ex_iff)
    from becomes_done[OF nd q2(3)] q2 have "questId = qid" "pending_step qid stepId st"
      by (auto simp: pending_step_def list_ex_iff)
    moreover from ls q2 nd have "\<not> set_has (completedQuests st) qid"
      by (auto simp: ledger_sound_def list_all_iff)
    ultimately show ?L using R by simp
  qed
  then show ?thesis unfolding bonus_step[OF wf] by auto
qed

lemma quest_done_mono:
  "quest_done st qid \<Longrightarrow> quest_done (toggleQuestStep questId stepId st) qid"
  unfolding quest_done_after by (auto simp: quest_done_def list_ex_iff toggle_in_quest_keeps_done)

lemma set_record_completion:
  "set (fold record_completion awards c) = set c \<union> {q. \<exists>a \<in> set awards. is_bonus_for q a}"
proof (induction awards arbitrary: c)
  case Nil
  show ?case by simp
next
  case (Cons a awards)
  show ?case by (cases a) (auto simp: Cons.IH set_add_def)
qed

lemma set_has_after_toggle:
  "set_has (completedQuests (toggleQuestStep questId stepId st)) qid
    = (set_has (completedQuests st) qid \<or> 0 < bonus_count qid (toggle_awards questId stepId st))"
  by (simp add: set_has_def completedQuests_toggle set_record_completion bonus_count_pos)

lemma quests_wf_toggle: "quests_wf st \<Longrightarrow> quests_wf (toggleQuestStep questId stepId st)"
  by (simp add: quests_wf_def mainQuests_toggle comp_def toggle_in_quest_id list_all_iff
      toggle_in_quest_step_ids toggle_in_quest_xp)

lemma ledger_sound_toggle:
  assumes wf: "quests_wf st" and ls: "ledger_sound st"
  shows "ledger_sound (toggleQuestStep questId stepId st)"
proof -
  have d: "distinct (map q_id (mainQuests st))" using wf by (simp add: quests_wf_def)
  have "all_done (fst (toggle_in_quest questId stepId (completedQuests st) quest))"
    if q: "quest \<in> set (mainQuests st)"
      and h: "set_has (completedQuests (toggleQuestStep questId stepId st)) (q_id quest)"
    for quest
  proof (cases "set_has (completedQuests st) (q_id quest)")
    case True
    with ls q have "all_done quest" by (auto simp: ledger_sound_def list_all_iff)
    then show ?thesis by (rule toggle_in_quest_keeps_done)
  next
    case False
    with h have "0 < bonus_count (q_id quest) (toggle_awards questId stepId st)"
      by (simp add: set_has_after_toggle)
    then have "quest_done (toggleQuestStep questId stepId st) (q_id quest)"
      unfolding bonus_step[OF wf] by (simp split: if_splits)
    then obtain q2 where q2: "q2 \<in> set (mainQuests st)" "q_id q2 = q_id quest"
        "all_done (fst (toggle_in_quest questId stepId (completedQuests st) q2))"
      unfolding quest_done_after by blast
    from unique_by_id[OF d q2(1) q q2(2)] q2(3) show ?thesis by simp
  qed
  then show ?thesis
    by (auto simp: ledger_sound_def list_all_iff mainQuests_toggle toggle_in_quest_id)
qed

lemma bonus_amount:
  assumes wf: "quests_wf st" and a: "a \<in> set (toggle_awards questId stepId st)"
    and b: "is_bonus_for qid a"
  shows "\<exists>quest \<in> set (mainQuests st). q_id quest = qid \<and> a = QuestBonus qid (q_xp quest)"
proof -
  from a obtain quest where q: "quest \<in> set (mainQuests st)"
    and ain: "a \<in> set (snd (toggle_in_quest questId stepId (completedQuests st) quest))"
    unfolding toggle_awards_concat by auto
  from wf q have ds: "distinct (map step_id (q_steps quest))" and xp: "0 < q_xp quest"
    by (auto simp: quests_wf_def list_all_iff)
  from ain b have "q_id quest = qid \<and> a = QuestBonus qid (questBonus quest)"
    unfolding toggle_in_quest_awards[OF ds] by (auto split: if_splits)
  with xp q show ?thesis by (auto simp: questBonus_def)
qed

lemma run_toggles_Cons:
  "run_toggles ((questId, stepId) # calls) st =
     (fst (run_toggles calls (toggleQuestStep questId stepId st)),
      toggle_awards questId stepId st @ snd (run_toggles calls (toggleQuestStep questId stepId st)))"
  by (simp add: toggleQuestStep_run_pair split_beta)

declare run_toggles.simps(2) [simp del]

lemma run_toggles_invariant:
  "quests_wf st \<Longrightarrow> ledger_sound st \<Longrightarrow>
   quests_wf (fst (run_toggles calls st)) \<and> ledger_sound (fst (run_toggles calls st))"
proof (induction calls arbitrary: st)
  case Nil
  then show ?case by simp
next
  case (Cons call calls)
  obtain questId stepId where call: "call = (questId, stepId)" by (cases call)
  from Cons.IH[OF quests_wf_toggle[OF Cons.prems(1)] ledger_sound_toggle[OF Cons.prems]]
  show ?case by (simp add: call run_toggles_Cons)
qed

lemma run_toggles_done_mono:
  "quest_done st qid \<Longrightarrow> quest_done (fst (run_toggles calls st)) qid"
proof (induction calls arbitrary: st)
  case Nil
  then show ?case by simp
next
  case (Cons call calls)
  obtain questId stepId where call: "call = (questId, stepId)" by (cases call)
  from Cons.IH[OF quest_done_mono[OF Cons.prems]] show ?case
    by (simp add: call run_toggles_Cons)
qed

lemma run_toggles_ledger_mono:
  "set_has (completedQuests st) qid \<Longrightarrow> set_has (completedQuests (fst (run_toggles calls st))) qid"
proof (induction calls arbitrary: st)
  case Nil
  then show ?case by simp
next
  case (Cons call calls)
  obtain questId stepId where call: "call = (questId, stepId)" by (cases call)
  from Cons.prems have "set_has (completedQuests (toggleQuestStep questId stepId st)) qid"
    by (simp add: set_has_after_toggle)
  from Cons.IH[OF this] show ?case by (simp add: call run_toggles_Cons)
qed

lemma run_toggles_bonus_count:
  "quests_wf st \<Longrightarrow> ledger_sound st \<Longrightarrow>
   bonus_count qid (snd (run_toggles calls st)) =
     (if \<not> quest_done st qid \<and> quest_done (fst (run_toggles calls st)) qid then 1 else 0)"
proof (induction calls arbitrary: st)
  case Nil
  then show ?case by (simp add: bonus_count_def)
next
  case (Cons call calls)
  obtain questId stepId where call: "call = (questId, stepId)" by (cases call)
  let ?st1 = "toggleQuestStep questId stepId st"
  have rest: "bonus_count qid (snd (run_toggles calls ?st1)) =
     (if \<not> quest_done ?st1 qid \<and> quest_done (fst (run_toggles calls ?st1)) qid then 1 else 0)"
    by (rule Cons.IH[OF quests_wf_toggle[OF Cons.prems(1)] ledger_sound_toggle[OF Cons.prems]])
  have first: "bonus_count qid (toggle_awards questId stepId st) =
     (if \<not> quest_done st qid \<and> quest_done ?st1 qid then 1 else 0)"
    by (rule bonus_step_transition[OF Cons.prems])
  have m1: "quest_done st qid \<Longrightarrow> quest_done ?st1 qid" by (rule quest_done_mono)
  have m2: "quest_done ?st1 qid \<Longrightarrow> quest_done (fst (run_toggles calls ?st1)) qid"
    by (rule run_toggles_done_mono)
  show ?case
    unfolding call run_toggles_Cons snd_conv fst_conv bonus_count_append first rest
    using m1 m2 by auto
qed

lemma run_toggles_ledger:
  "quests_wf st \<Longrightarrow> ledger_sound st \<Longrightarrow> \<not> quest_done st qid
    \<Longrightarrow> quest_done (fst (run_toggles calls st)) qid
    \<Longrightarrow> set_has (completedQuests (fst (run_toggles calls st))) qid"
proof (induction calls arbitrary: st)
  case Nil
  then show ?case by simp
next
  case (Cons call calls)
  obtain questId stepId where call: "call = (questId, stepId)" by (cases call)
  let ?st1 = "toggleQuestStep questId stepId st"
  show ?case
  proof (cases "quest_done ?st1 qid")
    case True
    with Cons.prems(3) have "bonus_count qid (toggle_awards questId stepId st) = 1"
      by (simp add: bonus_step_transition[OF Cons.prems(1,2)])
    then have "set_has (completedQuests ?st1) qid" by (simp add: set_has_after_toggle)
    from run_toggles_ledger_mono[OF this] show ?thesis by (simp add: call run_toggles_Cons)
  next
    case False
    from Cons.IH[OF quests_wf_toggle[OF Cons.prems(1)] ledger_sound_toggle[OF Cons.prems(1,2)] False]
      Cons.prems(4)
    show ?thesis by (simp add: call run_toggles_Cons)
  qed
qed

lemma run_toggles_xp:
  "totalXP (profile (fst (run_toggles calls st)))
     = totalXP (profile st) + sum_list (map award_xp (snd (run_toggles calls st)))"
proof (induction calls arbitrary: st)
  case Nil
  show ?case by simp
next
  case (Cons call calls)
  obtain questId stepId where call: "call = (questId, stepId)" by (cases call)
  show ?case by (simp add: call run_toggles_Cons Cons.IH totalXP_toggle)
qed

lemma quest_xp_toggle:
  "map (\<lambda>quest. (q_id quest, q_xp quest)) (mainQuests (toggleQuestStep questId stepId st))
     = map (\<lambda>quest. (q_id quest, q_xp quest)) (mainQuests st)"
  by (simp add: mainQuests_toggle comp_def toggle_in_quest_id toggle_in_quest_xp)

lemma run_toggles_bonus_amount:
  "quests_wf st \<Longrightarrow> a \<in> set (snd (run_toggles calls st)) \<Longrightarrow> is_bonus_for qid a
    \<Longrightarrow> \<exists>quest \<in> set (mainQuests st). q_id quest = qid \<and> a = QuestBonus qid (q_xp quest)"
proof (induction calls arbitrary: st)
  case Nil
  then show ?case by simp
next
  case (Cons call calls)
  obtain questId stepId where call: "call = (questId, stepId)" by (cases call)
  let ?st1 = "toggleQuestStep questId stepId st"
  from Cons.prems(2) consider "a \<in> set (toggle_awards questId stepId st)"
    | "a \<in> set (snd (run_toggles calls ?st1))"
    by (auto simp: call run_toggles_Cons)
  then show ?case
  proof cases
    case 1
    from bonus_amount[OF Cons.prems(1) 1 Cons.prems(3)] show ?thesis .
  next
    case 2
    from Cons.IH[OF quests_wf_toggle[OF Cons.prems(1)] 2 Cons.prems(3)]
    obtain quest where "quest \<in> set (mainQuests ?st1)" "q_id quest = qid"
      "a = QuestBonus qid (q_xp quest)" by blast
    then have "(qid, q_xp quest) \<in> set (map (\<lambda>quest. (q_id quest, q_xp quest)) (mainQuests ?st1))"
      by force
    then have "(qid, q_xp quest) \<in> set (map (\<lambda>quest. (q_id quest, q_xp quest)) (mainQuests st))"
      by (simp only: quest_xp_toggle)
    with \<open>a = QuestBonus qid (q_xp quest)\<close> show ?thesis by auto
  qed
qed

text \<open>
  One call, whatever the ledger holds: a bonus is dispatched exactly when the quest
  becomes done and its id is not in the ledger.
\<close>

lemma becomes_done_iff:
  assumes wf: "quests_wf st"
  shows "(questId = qid \<and> pending_step qid stepId st
           \<and> quest_done (toggleQuestStep questId stepId st) qid)
      = (\<not> quest_done st qid \<and> quest_done (toggleQuestStep questId stepId st) qid)"
    (is "?L = ?R")
proof
  have d: "distinct (map q_id (mainQuests st))" using wf by (simp add: quests_wf_def)
  assume L: ?L
  then obtain q1 where q1: "q1 \<in> set (mainQuests st)" "q_id q1 = qid"
      "list_ex (\<lambda>s. step_id s = stepId \<and> \<not> step_completed s) (q_steps q1)"
    unfolding pending_step_def list_ex_iff by blast
  have "\<not> quest_done st qid"
  proof
    assume "quest_done st qid"
    then obtain q2 where q2: "q2 \<in> set (mainQuests st)" "q_id q2 = qid" "all_done q2"
      unfolding quest_done_def list_ex_iff by blast
    from unique_by_id[OF d q1(1) q2(1)] q1(2) q2(2) have "q1 = q2" by simp
    with pending_not_done[OF q1(3)] q2(3) show False by simp
  qed
  with L show ?R by blast
next
  assume R: ?R
  then obtain q2 where q2: "q2 \<in> set (mainQuests st)" "q_id q2 = qid"
      "all_done (fst (toggle_in_quest questId stepId (completedQuests st) q2))"
    unfolding quest_done_after by blast
  from R q2 have nd: "\<not> all_done q2" by (auto simp: quest_done_def list_ex_iff)
  from becomes_done[OF nd q2(3)] q2 have "questId = qid" "pending_step qid stepId st"
    by (auto simp: pending_step_def list_ex_iff)
  with R show ?L by simp
qed

lemma bonus_step_general:
  assumes wf: "quests_wf st"
  shows "bonus_count qid (toggle_awards questId stepId st) =
    (if \<not> quest_done st qid \<and> quest_done (toggleQuestStep questId stepId st) qid
        \<and> \<not> set_has (completedQuests st) qid then 1 else 0)"
  unfolding bonus_step[OF wf] using becomes_done_iff[OF wf, of questId qid stepId] by auto

lemma run_toggles_wf: "quests_wf st \<Longrightarrow> quests_wf (fst (run_toggles calls st))"
proof (induction calls arbitrary: st)
  case Nil
  then show ?case by simp
next
  case (Cons call calls)
  obtain questId stepId where call: "call = (questId, stepId)" by (cases call)
  from Cons.IH[OF quests_wf_toggle[OF Cons.prems]] show ?case
    by (simp add: call run_toggles_Cons)
qed

lemma run_toggles_ledger_set:
  "set_has (completedQuests (fst (run_toggles calls st))) qid
    = (set_has (completedQuests st) qid \<or> 0 < bonus_count qid (snd (run_toggles calls st)))"
proof (induction calls arbitrary: st)
  case Nil
  show ?case by (simp add: bonus_count_def)
next
  case (Cons call calls)
  obtain questId stepId where call: "call = (questId, stepId)" by (cases call)
  show ?case
    by (auto simp: call run_toggles_Cons Cons.IH set_has_after_toggle bonus_count_append)
qed

lemma run_toggles_bonus_general:
  "quests_wf st \<Longrightarrow>
   bonus_count qid (snd (run_toggles calls st)) =
     (if \<not> quest_done st qid \<and> quest_done (fst (run_toggles calls st)) qid
         \<and> \<not> set_has (completedQuests st) qid then 1 else 0)"
proof (induction calls arbitrary: st)
  case Nil
  then show ?case by (simp add: bonus_count_def)
next
  case (Cons call calls)
  obtain questId stepId where call: "call = (questId, stepId)" by (cases call)
  let ?st1 = "toggleQuestStep questId stepId st"
  have first: "bonus_count qid (toggle_awards questId stepId st) =
     (if \<not> quest_done st qid \<and> quest_done ?st1 qid
         \<and> \<not> set_has (completedQuests st) qid then 1 else 0)"
    by (rule bonus_step_general[OF Cons.prems])
  have rest: "bonus_count qid (snd (run_toggles calls ?st1)) =
     (if \<not> quest_done ?st1 qid \<and> quest_done (fst (run_toggles calls ?st1)) qid
         \<and> \<not> set_has (completedQuests ?st1) qid then 1 else 0)"
    by (rule Cons.IH[OF quests_wf_toggle[OF Cons.prems]])
  have h1: "set_has (completedQuests ?st1) qid
     = (set_has (completedQuests st) qid \<or> 0 < bonus_count qid (toggle_awards questId stepId st))"
    by (rule set_has_after_toggle)
  have m1: "quest_done st qid \<Longrightarrow> quest_done ?st1 qid" by (rule quest_done_mono)
  have m2: "quest_done ?st1 qid \<Longrightarrow> quest_done (fst (run_toggles calls ?st1)) qid"
    by (rule run_toggles_done_mono)
  show ?case
    unfolding call run_toggles_Cons snd_conv fst_conv bonus_count_append rest h1 first
    using m1 m2 by auto
qed

lemma run_toggles_ids:
  "map q_id (mainQuests (fst (run_toggles calls st))) = map q_id (mainQuests st)"
proof (induction calls arbitrary: st)
  case Nil
  show ?case by simp
next
  case (Cons call calls)
  obtain questId stepId where call: "call = (questId, stepId)" by (cases call)
  show ?case
    by (simp add: call run_toggles_Cons Cons.IH mainQuests_toggle comp_def toggle_in_quest_id)
qed

lemma ledger_sound_not_in:
  assumes ls: "ledger_sound st" and nd: "\<not> quest_done st qid"
    and d': "quest_done (fst (run_toggles calls st)) qid"
  shows "\<not> set_has (completedQuests st) qid"
proof -
  from d' have "qid \<in> set (map q_id (mainQuests (fst (run_toggles calls st))))"
    by (auto simp: quest_done_def list_ex_iff)
  then have "qid \<in> set (map q_id (mainQuests st))" by (simp only: run_toggles_ids)
  then obtain quest where q: "quest \<in> set (mainQuests st)" "q_id quest = qid" by auto
  with nd have "\<not> all_done quest" by (auto simp: quest_done_def list_ex_iff)
  with ls q show ?thesis by (auto simp: ledger_sound_def list_all_iff)
qed

text \<open>
  C1. For every main quest, across any sequence of \<^verbatim>\<open>toggleQuestStep\<close> calls in any
  order, replayed calls included, the completion bonus \<open>quest.xp\<close> is added to
  \<open>totalXP\<close> exactly once. A single call dispatches the bonus exactly when it completes
  a pending step, the quest is done after it, and the quest id is not in
  \<open>completedQuests\<close>; the id is in \<open>completedQuests\<close> right after. Over a whole run the
  number of bonuses for a quest is 1 if the run completed the quest and its id was not in
  the ledger before, and 0 otherwise; the id is in the ledger after the run exactly if
  it was before or a bonus was dispatched; each bonus is the quest's own \<open>xp\<close>, and
  \<open>totalXP\<close> grows by the sum of the dispatched awards. The state is any state with the
  specification's data model (unique ids, positive \<open>xp\<close>). Where the ledger names only
  completed quests, as in every reachable state, the number of bonuses is 1 exactly if
  the run completed the quest.
\<close>

theorem completion_bonus_exactly_once:
  assumes "quests_wf st" and "run_toggles calls st = (st', awards)"
  shows "bonus_count qid (toggle_awards questId stepId st) =
         (if questId = qid \<and> pending_step qid stepId st
             \<and> quest_done (toggleQuestStep questId stepId st) qid
             \<and> \<not> set_has (completedQuests st) qid then 1 else 0)
    \<and> (0 < bonus_count qid (toggle_awards questId stepId st) \<longrightarrow>
          set_has (completedQuests (toggleQuestStep questId stepId st)) qid)
    \<and> bonus_count qid awards =
         (if \<not> quest_done st qid \<and> quest_done st' qid
             \<and> \<not> set_has (completedQuests st) qid then 1 else 0)
    \<and> set_has (completedQuests st') qid
         = (set_has (completedQuests st) qid \<or> 0 < bonus_count qid awards)
    \<and> (\<forall>a \<in> set awards. is_bonus_for qid a \<longrightarrow>
          (\<exists>quest \<in> set (mainQuests st). q_id quest = qid \<and> a = QuestBonus qid (q_xp quest)))
    \<and> totalXP (profile st') = totalXP (profile st) + sum_list (map award_xp awards)
    \<and> quests_wf st'
    \<and> (ledger_sound st \<longrightarrow>
          ledger_sound st'
          \<and> bonus_count qid awards
              = (if \<not> quest_done st qid \<and> quest_done st' qid then 1 else 0)
          \<and> (\<not> quest_done st qid \<and> quest_done st' qid \<longrightarrow> set_has (completedQuests st') qid))"
proof -
  have st': "st' = fst (run_toggles calls st)" and awards: "awards = snd (run_toggles calls st)"
    using assms(2) by simp_all
  have c1: "bonus_count qid (toggle_awards questId stepId st) =
         (if questId = qid \<and> pending_step qid stepId st
             \<and> quest_done (toggleQuestStep questId stepId st) qid
             \<and> \<not> set_has (completedQuests st) qid then 1 else 0)"
    by (rule bonus_step[OF assms(1)])
  have c2: "0 < bonus_count qid (toggle_awards questId stepId st) \<longrightarrow>
          set_has (completedQuests (toggleQuestStep questId stepId st)) qid"
    by (simp add: set_has_after_toggle)
  have c3: "bonus_count qid awards =
         (if \<not> quest_done st qid \<and> quest_done st' qid
             \<and> \<not> set_has (completedQuests st) qid then 1 else 0)"
    unfolding st' awards by (rule run_toggles_bonus_general[OF assms(1)])
  have c4: "set_has (completedQuests st') qid
         = (set_has (completedQuests st) qid \<or> 0 < bonus_count qid awards)"
    unfolding st' awards by (rule run_toggles_ledger_set)
  have c5: "\<forall>a \<in> set awards. is_bonus_for qid a \<longrightarrow>
          (\<exists>quest \<in> set (mainQuests st). q_id quest = qid \<and> a = QuestBonus qid (q_xp quest))"
    unfolding awards using run_toggles_bonus_amount[OF assms(1)] by blast
  have c6: "totalXP (profile st') = totalXP (profile st) + sum_list (map award_xp awards)"
    unfolding st' awards by (rule run_toggles_xp)
  have c7: "quests_wf st'"
    unfolding st' by (rule run_toggles_wf[OF assms(1)])
  have c8: "ledger_sound st \<longrightarrow>
          ledger_sound st'
          \<and> bonus_count qid awards
              = (if \<not> quest_done st qid \<and> quest_done st' qid then 1 else 0)
          \<and> (\<not> quest_done st qid \<and> quest_done st' qid \<longrightarrow> set_has (completedQuests st') qid)"
  proof
    assume ls: "ledger_sound st"
    have a: "ledger_sound st'"
      unfolding st' using run_toggles_invariant[OF assms(1) ls] by simp
    have b: "bonus_count qid awards
              = (if \<not> quest_done st qid \<and> quest_done st' qid then 1 else 0)"
      unfolding st' awards by (rule run_toggles_bonus_count[OF assms(1) ls])
    have c: "\<not> quest_done st qid \<and> quest_done st' qid \<longrightarrow> set_has (completedQuests st') qid"
      unfolding st' using run_toggles_ledger[OF assms(1) ls] by blast
    from a b c show "ledger_sound st'
          \<and> bonus_count qid awards
              = (if \<not> quest_done st qid \<and> quest_done st' qid then 1 else 0)
          \<and> (\<not> quest_done st qid \<and> quest_done st' qid \<longrightarrow> set_has (completedQuests st') qid)"
      by blast
  qed
  from c1 c2 c3 c4 c5 c6 c7 c8 show ?thesis by blast
qed

theorem completion_bonus_exactly_once_witness:
  "quests_wf initial_state \<and> ledger_sound initial_state
   \<and> \<not> quest_done initial_state ''career-1''
   \<and> quest_done (fst (run_toggles sample_calls initial_state)) ''career-1''
   \<and> bonus_count ''career-1'' (snd (run_toggles sample_calls initial_state)) = 1
   \<and> bonus_count ''career-8'' (snd (run_toggles sample_calls initial_state)) = 0
   \<and> totalXP (profile (fst (run_toggles sample_calls initial_state))) = 21 * 30 + 1000
   \<and> completedQuests (fst (run_toggles sample_calls initial_state)) = [''career-1'']
   \<and> bonus_count ''career-1'' (toggle_awards ''career-1'' ''c1-s1'' initial_state) = 0
   \<and> quests_wf last_step_pending
   \<and> pending_step ''career-1'' ''c1-s20'' last_step_pending
   \<and> \<not> set_has (completedQuests last_step_pending) ''career-1''
   \<and> bonus_count ''career-1'' (toggle_awards ''career-1'' ''c1-s20'' last_step_pending) = 1
   \<and> quests_wf ledger_ahead
   \<and> pending_step ''career-1'' ''c1-s20'' ledger_ahead
   \<and> quest_done (toggleQuestStep ''career-1'' ''c1-s20'' ledger_ahead) ''career-1''
   \<and> set_has (completedQuests ledger_ahead) ''career-1''
   \<and> bonus_count ''career-1'' (toggle_awards ''career-1'' ''c1-s20'' ledger_ahead) = 0
   \<and> bonus_count ''career-1'' (snd (run_toggles [(''career-1'', ''c1-s20'')] ledger_ahead)) = 0"
proof -
  have wf: "quests_wf initial_state" by code_simp
  have ls: "ledger_sound initial_state" by code_simp
  have start: "\<not> quest_done initial_state ''career-1''" by code_simp
  have done1: "quest_done (fst (run_toggles sample_calls initial_state)) ''career-1''"
    by code_simp
  have done8: "\<not> quest_done (fst (run_toggles sample_calls initial_state)) ''career-8''"
    by code_simp
  have xp: "totalXP (profile (fst (run_toggles sample_calls initial_state))) = 21 * 30 + 1000"
    by code_simp
  have ledger: "completedQuests (fst (run_toggles sample_calls initial_state)) = [''career-1'']"
    by code_simp
  have after1: "\<not> quest_done (toggleQuestStep ''career-1'' ''c1-s1'' initial_state) ''career-1''"
    by code_simp
  obtain st' awards where run: "run_toggles sample_calls initial_state = (st', awards)"
    by (cases "run_toggles sample_calls initial_state")
  have part1: "bonus_count ''career-1'' (snd (run_toggles sample_calls initial_state)) = 1
     \<and> bonus_count ''career-8'' (snd (run_toggles sample_calls initial_state)) = 0
     \<and> bonus_count ''career-1'' (toggle_awards ''career-1'' ''c1-s1'' initial_state) = 0"
    using completion_bonus_exactly_once[OF wf run, of "''career-1''" "''career-1''" "''c1-s1''"]
      completion_bonus_exactly_once[OF wf run, of "''career-8''"]
      ls start done1 done8 after1 run
    by simp
  have wfp: "quests_wf last_step_pending" by code_simp
  have pp: "pending_step ''career-1'' ''c1-s20'' last_step_pending" by code_simp
  have dp: "quest_done (toggleQuestStep ''career-1'' ''c1-s20'' last_step_pending) ''career-1''"
    by code_simp
  have hp: "\<not> set_has (completedQuests last_step_pending) ''career-1''" by code_simp
  obtain stp awardsp where runp: "run_toggles [] last_step_pending = (stp, awardsp)"
    by (cases "run_toggles [] last_step_pending")
  have part2: "bonus_count ''career-1'' (toggle_awards ''career-1'' ''c1-s20'' last_step_pending) = 1"
    using completion_bonus_exactly_once[OF wfp runp, of "''career-1''" "''career-1''" "''c1-s20''"]
      pp dp hp by simp
  have wfa: "quests_wf ledger_ahead" by code_simp
  have pa: "pending_step ''career-1'' ''c1-s20'' ledger_ahead" by code_simp
  have da: "quest_done (toggleQuestStep ''career-1'' ''c1-s20'' ledger_ahead) ''career-1''"
    by code_simp
  have ha: "set_has (completedQuests ledger_ahead) ''career-1''" by code_simp
  obtain sta awardsa where
    runa: "run_toggles [(''career-1'', ''c1-s20'')] ledger_ahead = (sta, awardsa)"
    by (cases "run_toggles [(''career-1'', ''c1-s20'')] ledger_ahead")
  have part3: "bonus_count ''career-1'' (toggle_awards ''career-1'' ''c1-s20'' ledger_ahead) = 0
     \<and> bonus_count ''career-1'' (snd (run_toggles [(''career-1'', ''c1-s20'')] ledger_ahead)) = 0"
    using completion_bonus_exactly_once[OF wfa runa, of "''career-1''" "''career-1''" "''c1-s20''"]
      ha runa by simp
  from wf ls start done1 xp ledger part1 wfp pp hp part2 wfa pa da ha part3
  show ?thesis by simp
qed

section \<open>Invariants of the reachable states\<close>

lemma quests_wf_resetAllQuests: "quests_wf st \<Longrightarrow> quests_wf (resetAllQuests st)"
  by (simp add: quests_wf_def resetAllQuests_def comp_def list_all_iff)

lemma ledger_sound_resetAllQuests: "ledger_sound (resetAllQuests st)"
  by (simp add: ledger_sound_def resetAllQuests_def set_has_def list_all_iff)

lemma mainQuests_handleQuestComplete:
  "mainQuests (handleQuestComplete questId st) = mainQuests st"
  "completedQuests (handleQuestComplete questId st) = completedQuests st"
  by (simp_all add: handleQuestComplete_def addXP_def Let_def)

lemma mainQuests_resetDailyQuests:
  "mainQuests (resetDailyQuests currentDate st) = mainQuests st"
  "completedQuests (resetDailyQuests currentDate st) = completedQuests st"
  by (simp_all add: resetDailyQuests_def)

lemma progress_settled_toggle:
  "progress_settled st \<Longrightarrow> progress_settled (toggleQuestStep questId stepId st)"
proof -
  assume s: "progress_settled st"
  have "q_progress (fst (toggle_in_quest questId stepId c quest))
          = getQuestProgress (fst (toggle_in_quest questId stepId c quest))
        \<or> list_all (\<lambda>s. \<not> step_completed s) (q_steps (fst (toggle_in_quest questId stepId c quest)))"
    if "q_progress quest = getQuestProgress quest
        \<or> list_all (\<lambda>s. \<not> step_completed s) (q_steps quest)" for quest c
  proof (cases "q_id quest = questId")
    case True
    then show ?thesis
      by (simp add: toggle_in_quest_result getQuestProgress_def updateSteps_length)
  next
    case False
    with that show ?thesis by (simp add: toggle_in_quest_result)
  qed
  with s show ?thesis
    by (simp add: progress_settled_def mainQuests_toggle list_all_iff)
qed

lemma progress_settled_resetAllQuests: "progress_settled (resetAllQuests st)"
  by (simp add: progress_settled_def resetAllQuests_def list_all_iff)

lemma reachable_invariants:
  "reachable st \<Longrightarrow> quests_wf st \<and> ledger_sound st \<and> progress_settled st"
proof (induction rule: reachable.induct)
  case (start st)
  then show ?case
    by (auto simp: fresh_def ledger_sound_def set_has_def progress_settled_def list_all_iff)
next
  case (completeDaily st questId)
  then show ?case
    by (simp add: quests_wf_def ledger_sound_def progress_settled_def
        mainQuests_handleQuestComplete)
next
  case (toggle st questId stepId)
  then show ?case
    by (simp add: quests_wf_toggle ledger_sound_toggle progress_settled_toggle)
next
  case (resetMain st)
  then show ?case
    by (simp add: quests_wf_resetAllQuests ledger_sound_resetAllQuests
        progress_settled_resetAllQuests)
next
  case (resetDaily st currentDate)
  then show ?case
    by (simp add: quests_wf_def ledger_sound_def progress_settled_def
        mainQuests_resetDailyQuests)
qed

lemma completed_step_noop:
  assumes r: "reachable st" and c: "completed_step questId stepId st"
  shows "\<not> pending_step questId stepId st \<and> progress_in_sync questId st"
proof -
  from reachable_invariants[OF r] have wf: "quests_wf st" and ps: "progress_settled st"
    by simp_all
  have d: "distinct (map q_id (mainQuests st))" using wf by (simp add: quests_wf_def)
  from c obtain q1 s1 where q1: "q1 \<in> set (mainQuests st)" "q_id q1 = questId"
    and s1: "s1 \<in> set (q_steps q1)" "step_id s1 = stepId" "step_completed s1"
    unfolding completed_step_def list_ex_iff by blast
  from wf q1 have ds: "distinct (map step_id (q_steps q1))"
    by (auto simp: quests_wf_def list_all_iff)
  have only: "quest = q1" if "quest \<in> set (mainQuests st)" "q_id quest = questId" for quest
    using unique_by_id[OF d that(1) q1(1)] that(2) q1(2) by simp
  have np1: "\<not> list_ex (\<lambda>s. step_id s = stepId \<and> \<not> step_completed s) (q_steps q1)"
  proof
    assume "list_ex (\<lambda>s. step_id s = stepId \<and> \<not> step_completed s) (q_steps q1)"
    then obtain s2 where s2: "s2 \<in> set (q_steps q1)" "step_id s2 = stepId" "\<not> step_completed s2"
      unfolding list_ex_iff by blast
    from ds s1(1) s2(1) s1(2) s2(2) have "s1 = s2"
      by (auto simp: distinct_map dest: inj_onD)
    with s1(3) s2(3) show False by simp
  qed
  have np: "\<not> pending_step questId stepId st"
  proof
    assume "pending_step questId stepId st"
    then obtain quest where "quest \<in> set (mainQuests st)" "q_id quest = questId"
      "list_ex (\<lambda>s. step_id s = stepId \<and> \<not> step_completed s) (q_steps quest)"
      unfolding pending_step_def list_ex_iff by blast
    with only np1 show False by blast
  qed
  from ps q1(1) s1 have "q_progress q1 = getQuestProgress q1"
    by (auto simp: progress_settled_def list_all_iff)
  with only have "progress_in_sync questId st"
    by (auto simp: progress_in_sync_def list_all_iff)
  with np show ?thesis by simp
qed

section \<open>Repeated and unknown toggles\<close>

lemma sync_progress_frame:
  "q_steps (sync_progress questId quest) = q_steps quest"
  "q_id (sync_progress questId quest) = q_id quest"
  "getQuestProgress (sync_progress questId quest) = getQuestProgress quest"
  by (simp_all add: sync_progress_def getQuestProgress_def)

text \<open>
  C7. Calling \<^verbatim>\<open>toggleQuestStep(q, s)\<close> twice in a row changes the state only once:
  the second call awards nothing and leaves the state as it is. A call with an unknown
  quest id does the same and, in every reachable state, so does a call on a step that
  is already completed. Any call that finds no pending step \<open>s\<close> in quest \<open>q\<close> (an
  unknown step id among them) awards no XP and leaves the steps of every quest, the
  progress of every quest, \<open>completedQuests\<close>, the profile with \<open>totalXP\<close> and the
  daily quests unchanged. The progress of a quest is the percentage of its completed
  steps, \<^verbatim>\<open>getQuestProgress\<close>, which is what the screens show; the field
  \<^verbatim>\<open>progress\<close>, which the source writes and never reads, holds that percentage after
  the call.
\<close>

theorem toggleQuestStep_noop:
  "toggleQuestStep questId stepId (toggleQuestStep questId stepId st)
      = toggleQuestStep questId stepId st
   \<and> toggle_awards questId stepId (toggleQuestStep questId stepId st) = []
   \<and> (questId \<notin> set (map q_id (mainQuests st)) \<longrightarrow>
        toggleQuestStep questId stepId st = st \<and> toggle_awards questId stepId st = [])
   \<and> (\<not> pending_step questId stepId st \<longrightarrow>
        toggle_awards questId stepId st = []
        \<and> map q_steps (mainQuests (toggleQuestStep questId stepId st))
            = map q_steps (mainQuests st)
        \<and> map getQuestProgress (mainQuests (toggleQuestStep questId stepId st))
            = map getQuestProgress (mainQuests st)
        \<and> map q_id (mainQuests (toggleQuestStep questId stepId st)) = map q_id (mainQuests st)
        \<and> completedQuests (toggleQuestStep questId stepId st) = completedQuests st
        \<and> profile (toggleQuestStep questId stepId st) = profile st
        \<and> dailyQuests (toggleQuestStep questId stepId st) = dailyQuests st
        \<and> toggleQuestStep questId stepId st
            = st\<lparr>mainQuests := map (sync_progress questId) (mainQuests st)\<rparr>
        \<and> (progress_in_sync questId st \<longrightarrow> toggleQuestStep questId stepId st = st))
   \<and> (reachable st \<and> completed_step questId stepId st \<longrightarrow>
        toggleQuestStep questId stepId st = st \<and> toggle_awards questId stepId st = [])"
proof -
  have twice: "toggleQuestStep questId stepId (toggleQuestStep questId stepId st)
      = toggleQuestStep questId stepId st"
    "toggle_awards questId stepId (toggleQuestStep questId stepId st) = []"
    using toggleQuestStep_twice[of questId stepId st]
    by (simp_all add: toggleQuestStep_def toggle_awards_def)
  have unknown: "toggleQuestStep questId stepId st = st \<and> toggle_awards questId stepId st = []"
    if u: "questId \<notin> set (map q_id (mainQuests st))"
  proof -
    from u have np: "\<not> pending_step questId stepId st"
      by (auto simp: pending_step_def list_ex_iff)
    from toggleQuestStep_run_no_pending[OF np] sync_progress_unknown[OF u]
    show ?thesis by (simp add: toggleQuestStep_def toggle_awards_def)
  qed
  have settled: "toggle_awards questId stepId st = []
        \<and> map q_steps (mainQuests (toggleQuestStep questId stepId st))
            = map q_steps (mainQuests st)
        \<and> map getQuestProgress (mainQuests (toggleQuestStep questId stepId st))
            = map getQuestProgress (mainQuests st)
        \<and> map q_id (mainQuests (toggleQuestStep questId stepId st)) = map q_id (mainQuests st)
        \<and> completedQuests (toggleQuestStep questId stepId st) = completedQuests st
        \<and> profile (toggleQuestStep questId stepId st) = profile st
        \<and> dailyQuests (toggleQuestStep questId stepId st) = dailyQuests st
        \<and> toggleQuestStep questId stepId st
            = st\<lparr>mainQuests := map (sync_progress questId) (mainQuests st)\<rparr>
        \<and> (progress_in_sync questId st \<longrightarrow> toggleQuestStep questId stepId st = st)"
    if np: "\<not> pending_step questId stepId st"
  proof -
    from toggleQuestStep_run_no_pending[OF np]
    have aw: "toggle_awards questId stepId st = []"
      and eq: "toggleQuestStep questId stepId st
            = st\<lparr>mainQuests := map (sync_progress questId) (mainQuests st)\<rparr>"
      by (simp_all add: toggleQuestStep_def toggle_awards_def)
    have sync: "progress_in_sync questId st \<longrightarrow> toggleQuestStep questId stepId st = st"
      using sync_progress_in_sync[of questId st] eq by simp
    from aw eq sync show ?thesis
      by (simp add: comp_def sync_progress_frame)
  qed
  have repeated: "toggleQuestStep questId stepId st = st \<and> toggle_awards questId stepId st = []"
    if rc: "reachable st \<and> completed_step questId stepId st"
  proof -
    from rc have np: "\<not> pending_step questId stepId st"
      and sync: "progress_in_sync questId st"
      using completed_step_noop by blast+
    from toggleQuestStep_run_no_pending[OF np] sync_progress_in_sync[OF sync]
    show ?thesis by (simp add: toggleQuestStep_def toggle_awards_def)
  qed
  from twice unknown settled repeated show ?thesis by blast
qed

theorem toggleQuestStep_noop_witness:
  "toggleQuestStep ''career-1'' ''c1-s1'' (toggleQuestStep ''career-1'' ''c1-s1'' initial_state)
     = toggleQuestStep ''career-1'' ''c1-s1'' initial_state
   \<and> toggle_awards ''career-1'' ''c1-s1'' initial_state = [StepAward 30]
   \<and> toggle_awards ''career-1'' ''c1-s1'' (toggleQuestStep ''career-1'' ''c1-s1'' initial_state) = []
   \<and> ''career-0'' \<notin> set (map q_id (mainQuests initial_state))
   \<and> toggleQuestStep ''career-0'' ''c1-s1'' initial_state = initial_state
   \<and> \<not> pending_step ''career-1'' ''c1-s21'' initial_state
   \<and> progress_in_sync ''career-1'' initial_state
   \<and> toggleQuestStep ''career-1'' ''c1-s21'' initial_state = initial_state
   \<and> \<not> pending_step ''career-8'' ''c8-s21'' initial_state
   \<and> toggle_awards ''career-8'' ''c8-s21'' initial_state = []
   \<and> map q_steps (mainQuests (toggleQuestStep ''career-8'' ''c8-s21'' initial_state))
       = map q_steps (mainQuests initial_state)
   \<and> map getQuestProgress (mainQuests (toggleQuestStep ''career-8'' ''c8-s21'' initial_state))
       = [Num 0, Num 0]
   \<and> map getQuestProgress (mainQuests initial_state) = [Num 0, Num 0]
   \<and> profile (toggleQuestStep ''career-8'' ''c8-s21'' initial_state) = profile initial_state
   \<and> completedQuests (toggleQuestStep ''career-8'' ''c8-s21'' initial_state) = []
   \<and> reachable (toggleQuestStep ''career-8'' ''c8-s3'' initial_state)
   \<and> completed_step ''career-8'' ''c8-s3'' (toggleQuestStep ''career-8'' ''c8-s3'' initial_state)
   \<and> toggleQuestStep ''career-8'' ''c8-s3'' (toggleQuestStep ''career-8'' ''c8-s3'' initial_state)
       = toggleQuestStep ''career-8'' ''c8-s3'' initial_state"
proof -
  have unknown: "''career-0'' \<notin> set (map q_id (mainQuests initial_state))"
    by code_simp
  have np: "\<not> pending_step ''career-1'' ''c1-s21'' initial_state"
    by code_simp
  have sync: "progress_in_sync ''career-1'' initial_state"
    by code_simp
  have first: "toggle_awards ''career-1'' ''c1-s1'' initial_state = [StepAward 30]"
    by code_simp
  have np8: "\<not> pending_step ''career-8'' ''c8-s21'' initial_state"
    by code_simp
  have shown: "map getQuestProgress (mainQuests initial_state) = [Num 0, Num 0]"
    by code_simp
  have empty: "completedQuests initial_state = []"
    by code_simp
  have "fresh initial_state" by code_simp
  then have r: "reachable (toggleQuestStep ''career-8'' ''c8-s3'' initial_state)"
    by (intro reachable.toggle reachable.start)
  have c: "completed_step ''career-8'' ''c8-s3''
      (toggleQuestStep ''career-8'' ''c8-s3'' initial_state)"
    by code_simp
  note again = toggleQuestStep_noop[of "''career-1''" "''c1-s1''" initial_state]
  note stranger = toggleQuestStep_noop[of "''career-0''" "''c1-s1''" initial_state,
      THEN conjunct2, THEN conjunct2, THEN conjunct1, rule_format, OF unknown]
  note settled1 = toggleQuestStep_noop[of "''career-1''" "''c1-s21''" initial_state,
      THEN conjunct2, THEN conjunct2, THEN conjunct2, THEN conjunct1, rule_format, OF np]
  note settled8 = toggleQuestStep_noop[of "''career-8''" "''c8-s21''" initial_state,
      THEN conjunct2, THEN conjunct2, THEN conjunct2, THEN conjunct1, rule_format, OF np8]
  note repeated = toggleQuestStep_noop[of "''career-8''" "''c8-s3''"
      "toggleQuestStep ''career-8'' ''c8-s3'' initial_state",
      THEN conjunct2, THEN conjunct2, THEN conjunct2, THEN conjunct2, rule_format,
      OF conjI[OF r c]]
  note tail1 = settled1[THEN conjunct2, THEN conjunct2, THEN conjunct2, THEN conjunct2]
  note tail8 = settled8[THEN conjunct2, THEN conjunct2]
  have f1: "toggleQuestStep ''career-1'' ''c1-s1''
      (toggleQuestStep ''career-1'' ''c1-s1'' initial_state)
     = toggleQuestStep ''career-1'' ''c1-s1'' initial_state"
    by (rule again[THEN conjunct1])
  have f2: "toggle_awards ''career-1'' ''c1-s1''
      (toggleQuestStep ''career-1'' ''c1-s1'' initial_state) = []"
    by (rule again[THEN conjunct2, THEN conjunct1])
  have f3: "toggleQuestStep ''career-0'' ''c1-s1'' initial_state = initial_state"
    by (rule stranger[THEN conjunct1])
  have f4: "toggleQuestStep ''career-1'' ''c1-s21'' initial_state = initial_state"
    by (rule tail1[THEN conjunct2, THEN conjunct2, THEN conjunct2, THEN conjunct2,
          rule_format, OF sync])
  have f5: "toggle_awards ''career-8'' ''c8-s21'' initial_state = []"
    by (rule settled8[THEN conjunct1])
  have f6: "map q_steps (mainQuests (toggleQuestStep ''career-8'' ''c8-s21'' initial_state))
       = map q_steps (mainQuests initial_state)"
    by (rule settled8[THEN conjunct2, THEN conjunct1])
  have f7: "map getQuestProgress
       (mainQuests (toggleQuestStep ''career-8'' ''c8-s21'' initial_state)) = [Num 0, Num 0]"
    using tail8[THEN conjunct1] shown by (rule trans)
  have f8: "profile (toggleQuestStep ''career-8'' ''c8-s21'' initial_state)
       = profile initial_state"
    by (rule tail8[THEN conjunct2, THEN conjunct2, THEN conjunct2, THEN conjunct1])
  have f9: "completedQuests (toggleQuestStep ''career-8'' ''c8-s21'' initial_state) = []"
    using tail8[THEN conjunct2, THEN conjunct2, THEN conjunct1] empty by (rule trans)
  have f10: "toggleQuestStep ''career-8'' ''c8-s3''
      (toggleQuestStep ''career-8'' ''c8-s3'' initial_state)
       = toggleQuestStep ''career-8'' ''c8-s3'' initial_state"
    by (rule repeated[THEN conjunct1])
  show ?thesis
    by (intro conjI f1 first f2 unknown f3 np sync f4 np8 f5 f6 f7 shown f8 f9 r c f10)
qed

text \<open>
  The field \<^verbatim>\<open>progress\<close> of \<^verbatim>\<open>career-8\<close> is 5 in the initial data although no
  step is completed; a call that finds no pending step stores the percentage of the
  steps there.
\<close>

lemma stored_progress_rewritten:
  "map q_progress (mainQuests initial_state) = [Num 0, Num 5]
   \<and> map q_progress (mainQuests (toggleQuestStep ''career-8'' ''c8-s21'' initial_state))
       = [Num 0, Num 0]"
  by code_simp

section \<open>Reset of the main quests\<close>

text \<open>
  C8. After \<^verbatim>\<open>resetAllQuests\<close> every main quest has progress 0, every step of every
  main quest is not completed, and \<open>completedQuests\<close> is empty; the one operation
  returns the state with the steps reset and the ledger cleared together. The quests and
  their steps are otherwise the same, and the profile (with \<open>totalXP\<close>) is untouched.
\<close>

theorem resetAllQuests_clears:
  "list_all (\<lambda>quest. q_progress quest = Num 0
                \<and> list_all (\<lambda>s. \<not> step_completed s) (q_steps quest))
      (mainQuests (resetAllQuests st))
   \<and> completedQuests (resetAllQuests st) = []
   \<and> map q_id (mainQuests (resetAllQuests st)) = map q_id (mainQuests st)
   \<and> map (\<lambda>quest. map step_id (q_steps quest)) (mainQuests (resetAllQuests st))
       = map (\<lambda>quest. map step_id (q_steps quest)) (mainQuests st)
   \<and> profile (resetAllQuests st) = profile st"
  by (simp add: resetAllQuests_def list_all_iff comp_def)

theorem resetAllQuests_clears_witness:
  "completedQuests (fst (run_toggles sample_calls initial_state)) = [''career-1'']
   \<and> map q_progress (mainQuests (fst (run_toggles sample_calls initial_state)))
       = [Num 100, Num 5]
   \<and> list_all (\<lambda>quest. q_progress quest = Num 0
                \<and> list_all (\<lambda>s. \<not> step_completed s) (q_steps quest))
       (mainQuests (resetAllQuests (fst (run_toggles sample_calls initial_state))))
   \<and> map q_id (mainQuests (resetAllQuests (fst (run_toggles sample_calls initial_state))))
       = [''career-1'', ''career-8'']
   \<and> completedQuests (resetAllQuests (fst (run_toggles sample_calls initial_state))) = []"
proof -
  let ?st = "fst (run_toggles sample_calls initial_state)"
  have before: "completedQuests ?st = [''career-1'']"
    "map q_progress (mainQuests ?st) = [Num 100, Num 5]"
    "map q_id (mainQuests ?st) = [''career-1'', ''career-8'']"
    by code_simp+
  from resetAllQuests_clears[of ?st] before show ?thesis by simp
qed

section \<open>The fallback chain of the store\<close>

lemma Storage_getItem_order:
  assumes "readable (localStorage b)" and "readable (sessionStorage b)"
  shows "Storage_getItem key b =
    (if truthy_string (items (localStorage b) key) then items (localStorage b) key
     else if truthy_string (items (sessionStorage b) key) then items (sessionStorage b) key
     else if truthy_string (items (sessionStorage b) (key @ ''_backup''))
          then items (sessionStorage b) (key @ ''_backup'')
     else None)"
  using assms by (simp add: Storage_getItem_def medium_getItem_def)

lemma Storage_getItem_blocked:
  "\<not> readable (localStorage b) \<Longrightarrow> Storage_getItem key b = None"
  by (simp add: Storage_getItem_def medium_getItem_def)

text \<open>
  C3 says that a read failure on one medium never prevents attempting the next. In the
  source the three lookups of \<^verbatim>\<open>getItem\<close> share one \<^verbatim>\<open>try\<close> block: when
  \<^verbatim>\<open>localStorage\<close> throws, \<^verbatim>\<open>getItem\<close> returns \<^verbatim>\<open>null\<close> without reading
  \<^verbatim>\<open>sessionStorage\<close>. With such a browser \<^verbatim>\<open>setItem\<close> falls back and stores the value
  under the key in \<^verbatim>\<open>sessionStorage\<close>, and the \<^verbatim>\<open>getItem\<close> that follows does not
  find it.
\<close>

theorem Storage_getItem_gives_up:
  "items (sessionStorage (Storage_setItem ''userProgressData'' ''{}'' ''0'' blocked_local))
      ''userProgressData'' = Some ''{}''
   \<and> Storage_getItem ''userProgressData''
        (Storage_setItem ''userProgressData'' ''{}'' ''0'' blocked_local) = None"
  by (simp add: Storage_setItem_def setItem_fallback_def Storage_getItem_def medium_setItem_def
      medium_getItem_def blocked_local_def)

section \<open>The persistence round trip\<close>

lemma step_round_trip: "step_of_json (step_json s) = Some s"
  by (simp add: step_of_json_def step_json_def)

lemma steps_round_trip: "those (map (step_of_json \<circ> step_json) ss) = Some ss"
  by (induction ss) (simp_all add: step_round_trip)

lemma mainQuest_round_trip:
  "q_progress quest \<noteq> NaN \<Longrightarrow> mainQuest_of_json (mainQuest_json quest) = Some quest"
  by (cases "q_progress quest")
     (simp_all add: mainQuest_of_json_def mainQuest_json_def steps_round_trip)

lemma mainQuests_round_trip:
  "list_all (\<lambda>quest. q_progress quest \<noteq> NaN) quests \<Longrightarrow>
   array_of mainQuest_of_json (JArr (map mainQuest_json quests)) = Some quests"
  by (induction quests) (simp_all add: array_of_def mainQuest_round_trip comp_def)

lemma dailyQuest_round_trip: "dailyQuest_of_json (dailyQuest_json quest) = Some quest"
  by (simp add: dailyQuest_of_json_def dailyQuest_json_def)

lemma dailyQuests_round_trip:
  "array_of dailyQuest_of_json (JArr (map dailyQuest_json quests)) = Some quests"
  by (induction quests) (simp_all add: array_of_def dailyQuest_round_trip comp_def)

lemma userProfile_round_trip: "userProfile_of_json (userProfile_json p) = Some p"
  by (simp add: userProfile_of_json_def userProfile_json_def)

lemma theme_round_trip: "theme_of_json (theme_json t) = Some t"
  by (cases t) (simp_all add: theme_of_json_def)

lemma strings_round_trip:
  "array_of (\<lambda>j. as_string (Some j)) (JArr (map JStr xs)) = Some xs"
  by (induction xs) (simp_all add: array_of_def)

lemma fold_set_add:
  "distinct (acc @ xs) \<Longrightarrow> fold (\<lambda>x s. set_add s x) xs acc = acc @ xs"
  by (induction xs arbitrary: acc) (simp_all add: set_add_def)

lemma set_from_array_distinct: "distinct xs \<Longrightarrow> set_from_array xs = xs"
  using fold_set_add[of "[]" xs] by (simp add: set_from_array_def)

lemma validate_userData: "validateUserData (userData savedAt st)"
  by (simp add: validateUserData_def userData_def requiredFields_def userProfile_json_def)

lemma truthy_profile: "truthy (Some (userProfile_json p))"
  by (simp add: userProfile_json_def)

lemma truthy_theme: "truthy (Some (theme_json t))"
  by (cases t) simp_all

lemma restore_userData:
  assumes "list_all (\<lambda>quest. q_progress quest \<noteq> NaN) (mainQuests st)"
  shows "restore (userData savedAt st) live =
    Inr (st\<lparr>completedQuests := set_from_array (completedQuests st),
            lastResetDate := (if lastResetDate st \<noteq> [] then lastResetDate st
                              else lastResetDate live),
            selectedCharacter := (if avatar (profile st) \<noteq> [] then avatar (profile st)
                                  else selectedCharacter live)\<rparr>)"
  by (simp add: restore_def userData_def guarded_set_def and_then_def Let_def
      userProfile_round_trip dailyQuests_round_trip mainQuests_round_trip[OF assms]
      strings_round_trip theme_round_trip truthy_theme truthy_profile)


lemma distinct_set_add: "distinct s \<Longrightarrow> distinct (set_add s x)"
  by (simp add: set_add_def)

lemma distinct_record_completion:
  "distinct c \<Longrightarrow> distinct (fold record_completion awards c)"
proof (induction awards arbitrary: c)
  case Nil
  then show ?case by simp
next
  case (Cons a awards)
  then show ?case by (cases a) (simp_all add: distinct_set_add)
qed

lemma round_percent_numeric: "n \<noteq> 0 \<Longrightarrow> round_percent c n \<noteq> NaN"
  by (simp add: round_percent_def Let_def split_beta)

lemma toggle_in_quest_persistable:
  "q_steps quest \<noteq> [] \<and> q_progress quest \<noteq> NaN \<Longrightarrow>
   q_steps (fst (toggle_in_quest questId stepId c quest)) \<noteq> []
   \<and> q_progress (fst (toggle_in_quest questId stepId c quest)) \<noteq> NaN"
  by (simp add: toggle_in_quest_result updateSteps_def round_percent_numeric)

lemma persistable_toggle: "persistable st \<Longrightarrow> persistable (toggleQuestStep questId stepId st)"
  by (simp add: persistable_def completedQuests_toggle distinct_record_completion
      mainQuests_toggle list_all_iff toggle_in_quest_persistable)

lemma persistable_fresh: "fresh st \<Longrightarrow> persistable st"
  by (simp add: fresh_def persistable_def list_all_iff)

lemma persistable_handleQuestComplete:
  "persistable st \<Longrightarrow> persistable (handleQuestComplete questId st)"
  by (simp add: persistable_def handleQuestComplete_def addXP_def Let_def)

lemma persistable_resetAllQuests: "persistable st \<Longrightarrow> persistable (resetAllQuests st)"
  by (simp add: persistable_def resetAllQuests_def list_all_iff)

lemma persistable_resetDailyQuests:
  "persistable st \<Longrightarrow> persistable (resetDailyQuests currentDate st)"
  by (simp add: persistable_def resetDailyQuests_def)

lemma reachable_persistable: "reachable st \<Longrightarrow> persistable st"
proof (induction rule: reachable.induct)
  case (start st)
  then show ?case by (rule persistable_fresh)
next
  case (completeDaily st questId)
  then show ?case by (simp add: persistable_handleQuestComplete)
next
  case (toggle st questId stepId)
  then show ?case by (simp add: persistable_toggle)
next
  case (resetMain st)
  then show ?case by (simp add: persistable_resetAllQuests)
next
  case (resetDaily st currentDate)
  then show ?case by (simp add: persistable_resetDailyQuests)
qed

lemma reachable_run_toggles: "reachable st \<Longrightarrow> reachable (fst (run_toggles calls st))"
proof (induction calls arbitrary: st)
  case Nil
  then show ?case by simp
next
  case (Cons call calls)
  obtain questId stepId where call: "call = (questId, stepId)" by (cases call)
  from Cons.IH[OF reachable.toggle[OF Cons.prems]] show ?case
    by (simp add: call run_toggles_Cons)
qed

lemma Storage_set_then_get:
  assumes "readable (localStorage b)" and "writable (localStorage b)" and "v \<noteq> []"
  shows "Storage_getItem key (Storage_setItem key v now b) = Some v"
proof -
  have ne: "key @ ''_timestamp'' \<noteq> key" by simp
  show ?thesis using assms ne
    by (auto simp: Storage_getItem_def Storage_setItem_def setItem_fallback_def
        medium_setItem_def medium_getItem_def truthy_string_def Let_def
        split: sum.splits if_splits)
qed

lemma load_after_save:
  assumes "readable (localStorage b)" and "writable (localStorage b)"
    and "stringify (userData savedAt st) \<noteq> []"
    and "parse (stringify (userData savedAt st)) = Some (userData savedAt st)"
  shows "loadUserData parse (saveUserData stringify savedAt now st b) live
          = restore (userData savedAt st) live"
  using assms
  by (simp add: loadUserData_def loadUserData_with_def saveUserData_def validate_userData
      Storage_set_then_get)

text \<open>
  The state \<open>ledger_ahead\<close> comes back from its own aggregate: its ledger names
  \<^verbatim>\<open>career-1\<close>, whose last step is pending.
\<close>

lemma ledger_ahead_restored:
  "validateUserData (userData [] ledger_ahead)
   \<and> (\<exists>st'. restore (userData [] ledger_ahead) initial_state = Inr st'
          \<and> mainQuests st' = mainQuests ledger_ahead
          \<and> completedQuests st' = completedQuests ledger_ahead)"
proof -
  have n: "list_all (\<lambda>quest. q_progress quest \<noteq> NaN) (mainQuests ledger_ahead)"
    by code_simp
  have d: "distinct (completedQuests ledger_ahead)" by code_simp
  show ?thesis
    by (simp add: validate_userData restore_userData[OF n] set_from_array_distinct[OF d])
qed

text \<open>
  C2. For every state reachable through the quest operations, \<^verbatim>\<open>validateUserData\<close>
  accepts the aggregate \<^verbatim>\<open>saveUserData\<close> builds from it, and restoring that
  aggregate, onto whatever live state, gives a state with the same \<open>totalXP\<close>, the same
  progress of every quest and the same \<open>completedQuests\<close> (the profile, the main quests
  and the daily quests are identical). With a working \<^verbatim>\<open>localStorage\<close> and a
  \<^verbatim>\<open>JSON.parse\<close> that inverts \<^verbatim>\<open>JSON.stringify\<close> on the aggregate,
  \<^verbatim>\<open>loadUserData\<close> after \<^verbatim>\<open>saveUserData\<close> is that restore.
\<close>

theorem persistence_round_trip:
  assumes "reachable st"
  shows "validateUserData (userData savedAt st)
    \<and> (\<exists>st'. restore (userData savedAt st) live = Inr st'
          \<and> totalXP (profile st') = totalXP (profile st)
          \<and> map q_progress (mainQuests st') = map q_progress (mainQuests st)
          \<and> completedQuests st' = completedQuests st
          \<and> profile st' = profile st \<and> mainQuests st' = mainQuests st
          \<and> dailyQuests st' = dailyQuests st)
    \<and> (readable (localStorage b) \<and> writable (localStorage b)
        \<and> stringify (userData savedAt st) \<noteq> []
        \<and> parse (stringify (userData savedAt st)) = Some (userData savedAt st)
        \<longrightarrow> loadUserData parse (saveUserData stringify savedAt now st b) live
              = restore (userData savedAt st) live)"
proof -
  from reachable_persistable[OF assms]
  have d: "distinct (completedQuests st)"
    and n: "list_all (\<lambda>quest. q_progress quest \<noteq> NaN) (mainQuests st)"
    by (simp_all add: persistable_def list_all_iff)
  show ?thesis
    by (simp add: validate_userData restore_userData[OF n] set_from_array_distinct[OF d]
        load_after_save)
qed

theorem persistence_round_trip_witness:
  "reachable (fst (run_toggles sample_calls initial_state))
   \<and> validateUserData (userData ''2024-01-02T10:00:00.000Z''
         (fst (run_toggles sample_calls initial_state)))
   \<and> (\<exists>st'. restore (userData ''2024-01-02T10:00:00.000Z''
                 (fst (run_toggles sample_calls initial_state))) initial_state = Inr st'
          \<and> totalXP (profile st') = 1630
          \<and> map q_progress (mainQuests st') = [Num 100, Num 5]
          \<and> completedQuests st' = [''career-1''])
   \<and> loadUserData
        (\<lambda>raw. if raw = ''saved'' then Some (userData ''2024-01-02T10:00:00.000Z''
                   (fst (run_toggles sample_calls initial_state))) else None)
        (saveUserData (\<lambda>j. ''saved'') ''2024-01-02T10:00:00.000Z'' ''1704189600000''
           (fst (run_toggles sample_calls initial_state)) working_browser) initial_state
      = restore (userData ''2024-01-02T10:00:00.000Z''
           (fst (run_toggles sample_calls initial_state))) initial_state"
proof -
  let ?st = "fst (run_toggles sample_calls initial_state)"
  let ?parse = "\<lambda>raw. if raw = ''saved''
     then Some (userData ''2024-01-02T10:00:00.000Z'' ?st) else None"
  have "fresh initial_state" by code_simp
  then have r: "reachable ?st" by (intro reachable_run_toggles reachable.start)
  have vals: "totalXP (profile ?st) = 1630"
    "map q_progress (mainQuests ?st) = [Num 100, Num 5]"
    "completedQuests ?st = [''career-1'']"
    by code_simp+
  have store: "readable (localStorage working_browser)" "writable (localStorage working_browser)"
    by (simp_all add: working_browser_def)
  from persistence_round_trip[OF r, of "''2024-01-02T10:00:00.000Z''" initial_state
      working_browser "\<lambda>j. ''saved''" ?parse "''1704189600000''"] vals store r
  show ?thesis by auto
qed

text \<open>
  C9. \<^verbatim>\<open>validateUserData\<close> returns true only for aggregates that have the
  \<^verbatim>\<open>userProfile\<close>, \<^verbatim>\<open>dailyQuests\<close> and \<^verbatim>\<open>mainQuests\<close> keys and a numeric
  \<^verbatim>\<open>userProfile.totalXP\<close>; an aggregate that misses one of these is rejected, and
  for a rejected aggregate \<^verbatim>\<open>loadUserData\<close> returns the live state as it was,
  whatever the part after validation would do: it is not run.
\<close>

theorem validateUserData_rejects:
  "(validateUserData data \<longrightarrow>
      (\<exists>p d m n. get_prop data ''userProfile'' = Some p
         \<and> get_prop data ''dailyQuests'' = Some d
         \<and> get_prop data ''mainQuests'' = Some m
         \<and> get_prop p ''totalXP'' = Some (JNum n)))
   \<and> (get_prop data ''userProfile'' = None \<or> get_prop data ''dailyQuests'' = None
        \<or> get_prop data ''mainQuests'' = None
        \<or> (\<exists>p. get_prop data ''userProfile'' = Some p
               \<and> \<not> typeof_number (get_prop p ''totalXP''))
       \<longrightarrow> \<not> validateUserData data)
   \<and> (\<not> validateUserData data
        \<and> Storage_getItem ''userProgressData'' b = Some raw \<and> parse raw = Some data
       \<longrightarrow> loadUserData_with apply parse b st = Inr st)"
proof (intro conjI impI)
  assume v: "validateUserData data"
  then obtain p where p: "get_prop data ''userProfile'' = Some p"
    and x: "typeof_number (get_prop p ''totalXP'')"
    by (auto simp: validateUserData_def split: if_splits option.splits)
  from x obtain n where n: "get_prop p ''totalXP'' = Some (JNum n)"
    by (cases "get_prop p ''totalXP''" rule: typeof_number.cases) auto
  from v have "truthy (get_prop data ''dailyQuests'')" "truthy (get_prop data ''mainQuests'')"
    by (auto simp: validateUserData_def requiredFields_def split: if_splits)
  then obtain d m where "get_prop data ''dailyQuests'' = Some d"
    "get_prop data ''mainQuests'' = Some m"
    by (cases "get_prop data ''dailyQuests''"; cases "get_prop data ''mainQuests''") auto
  with p n show "\<exists>p d m n. get_prop data ''userProfile'' = Some p
         \<and> get_prop data ''dailyQuests'' = Some d
         \<and> get_prop data ''mainQuests'' = Some m
         \<and> get_prop p ''totalXP'' = Some (JNum n)" by blast
next
  assume "get_prop data ''userProfile'' = None \<or> get_prop data ''dailyQuests'' = None
        \<or> get_prop data ''mainQuests'' = None
        \<or> (\<exists>p. get_prop data ''userProfile'' = Some p
               \<and> \<not> typeof_number (get_prop p ''totalXP''))"
  then show "\<not> validateUserData data"
    by (auto simp: validateUserData_def requiredFields_def)
next
  assume "\<not> validateUserData data
        \<and> Storage_getItem ''userProgressData'' b = Some raw \<and> parse raw = Some data"
  then show "loadUserData_with apply parse b st = Inr st"
    by (simp add: loadUserData_with_def)
qed

theorem validateUserData_rejects_witness:
  "get_prop aggregate_without_mainQuests ''mainQuests'' = None
   \<and> \<not> validateUserData aggregate_without_mainQuests
   \<and> Storage_getItem ''userProgressData''
        (Storage_setItem ''userProgressData'' ''raw'' ''0'' working_browser) = Some ''raw''
   \<and> loadUserData (\<lambda>raw. Some aggregate_without_mainQuests)
        (Storage_setItem ''userProgressData'' ''raw'' ''0'' working_browser) initial_state
      = Inr initial_state
   \<and> validateUserData (userData [] initial_state)
   \<and> (\<exists>p n. get_prop (userData [] initial_state) ''userProfile'' = Some p
          \<and> get_prop p ''totalXP'' = Some (JNum n))"
proof -
  let ?b = "Storage_setItem ''userProgressData'' ''raw'' ''0'' working_browser"
  have missing: "get_prop aggregate_without_mainQuests ''mainQuests'' = None"
    by (simp add: aggregate_without_mainQuests_def)
  have stored: "Storage_getItem ''userProgressData'' ?b = Some ''raw''"
    by (simp add: Storage_set_then_get working_browser_def)
  have valid: "validateUserData (userData [] initial_state)"
    by (rule validate_userData)
  from validateUserData_rejects[of aggregate_without_mainQuests ?b "''raw''"
      "\<lambda>raw. Some aggregate_without_mainQuests" restore initial_state] missing stored
  have "\<not> validateUserData aggregate_without_mainQuests"
    "loadUserData (\<lambda>raw. Some aggregate_without_mainQuests) ?b initial_state = Inr initial_state"
    by (simp_all add: loadUserData_def)
  moreover from validateUserData_rejects[of "userData [] initial_state"] valid
  have "\<exists>p n. get_prop (userData [] initial_state) ''userProfile'' = Some p
          \<and> get_prop p ''totalXP'' = Some (JNum n)"
    by blast
  ultimately show ?thesis using missing stored valid by blast
qed

section \<open>When the daily reset is due\<close>

lemma div_shift:
  fixes w off n :: int
  assumes "0 \<le> off" and "off \<le> w mod n" and "0 < n"
  shows "(w - off) div n = w div n"
proof -
  have "w - off = (w mod n - off) + (w div n) * n"
    by (simp add: algebra_simps)
  then have "(w - off) div n = ((w mod n - off) + (w div n) * n) div n" by (rule arg_cong)
  also have "\<dots> = w div n + (w mod n - off) div n"
    using assms(3) by (simp only: div_mult_self1) 
  also have "(w mod n - off) div n = 0"
  proof (rule div_pos_pos_trivial)
    show "0 \<le> w mod n - off" using assms(2) by simp
    have "w mod n < n" using assms(3) by (rule pos_mod_bound)
    with assms(1) show "w mod n - off < n" by linarith
  qed
  finally show ?thesis by simp
qed

lemma getHours_getKyivTime: "getHours c (getKyivTime c) = hourOfDay c"
  by (simp add: getHours_def getKyivTime_def Date_of_local_text_def hourOfDay_def)

text \<open>
  On a host whose offset from UTC lies between 0 and 4 hours, Kyiv among them, the
  source's test is the specification's.
\<close>

lemma shouldResetDailyQuests_near_hosts:
  assumes "0 \<le> hostOffset c" and "hostOffset c \<le> 4 * 3600"
  shows "shouldResetDailyQuests c lastReset
          = (currentDateKey c \<noteq> lastReset \<and> 4 \<le> hourOfDay c)"
proof (cases "4 \<le> hourOfDay c")
  case False
  then show ?thesis by (simp add: shouldResetDailyQuests_def getHours_getKyivTime)
next
  case True
  then have "4 * 3600 \<le> kyivWallClock c mod 86400"
    by (simp add: hourOfDay_def)
  with assms have "hostOffset c \<le> kyivWallClock c mod 86400" by simp
  then have "(kyivWallClock c - hostOffset c) div 86400 = kyivWallClock c div 86400"
    using assms(1) by (intro div_shift) simp_all
  then have "getCurrentDateString c = currentDateKey c"
    by (simp add: getCurrentDateString_def currentDateKey_def getKyivTime_def
        Date_of_local_text_def toISOString_date_def)
  with True show ?thesis
    by (auto simp: shouldResetDailyQuests_def getHours_getKyivTime)
qed

text \<open>
  C10 says that the reset is due exactly when the calendar date of now in the fixed
  time zone differs from \<open>lastResetDate\<close> and the hour is at least 4. The source takes
  the date from \<^verbatim>\<open>toISOString\<close>, which prints the UTC date of a \<^verbatim>\<open>Date\<close> that was
  read as host-local time, so the date key is shifted by the host's offset. With
  \<open>lastResetDate = "2024-01-01"\<close>: on a host 5 hours behind UTC the reset is due at
  20:00 of 2024-01-01 in Kyiv, the same date; on a host 5.5 hours ahead of UTC it is
  not due at 04:30 of 2024-01-02 in Kyiv. On a host in Kyiv it is due then.
\<close>

theorem shouldResetDailyQuests_host_shift:
  "currentDateKey evening_on_western_host = ''2024-01-01''
   \<and> hourOfDay evening_on_western_host = 20
   \<and> getCurrentDateString evening_on_western_host = ''2024-01-02''
   \<and> shouldResetDailyQuests evening_on_western_host ''2024-01-01''
   \<and> currentDateKey morning_on_eastern_host = ''2024-01-02''
   \<and> hourOfDay morning_on_eastern_host = 4
   \<and> getCurrentDateString morning_on_eastern_host = ''2024-01-01''
   \<and> \<not> shouldResetDailyQuests morning_on_eastern_host ''2024-01-01''
   \<and> shouldResetDailyQuests morning_on_kyiv_host ''2024-01-01''"
  by code_simp


end
